theory Spec2Isabelle
  imports Complex_Main "HOL-Library.Word" "HOL-Library.Multiset"
begin

section \<open>Data model of the tool ordering (ToolOrdering.cpp)\<close>

text \<open>
  Extruder and filament ids are C++ \<^verbatim>\<open>unsigned int\<close>: 32-bit words, so that the
  decrement of the re-indexing loop wraps as it does in the source. Heights and
  volumes (\<^verbatim>\<open>coordf_t\<close>, \<^verbatim>\<open>double\<close>, \<^verbatim>\<open>float\<close>) are modelled as exact rationals:
  the order and the comparisons of the source are kept, rounding is not modelled.
  \<^verbatim>\<open>EPSILON\<close> comes from libslic3r.h, which is not part of the sources at hand; every
  function that uses it takes it as the parameter \<open>eps\<close>.
\<close>

type_synonym extruder_id = "32 word"

record LayerTools =
  print_z :: rat
  has_object :: bool
  has_support :: bool
  extruders :: "extruder_id list"
  extruder_override :: extruder_id
  has_wipe_tower :: bool
  has_skirt :: bool
  wipe_tower_partitions :: nat
  wipe_tower_layer_height :: rat
  custom_gcode :: "nat option"

text \<open>
  The constructor \<^verbatim>\<open>LayerTools(z)\<close> of ToolOrdering.hpp: only \<open>print_z\<close> is given, every
  other member has its default. \<open>custom_gcode\<close> is a pointer to an item of the custom
  G-code list; the model keeps the index of that item.
\<close>

definition new_LayerTools :: "rat \<Rightarrow> LayerTools" where
  "new_LayerTools z =
     \<lparr> print_z = z, has_object = False, has_support = False, extruders = [],
       extruder_override = 0, has_wipe_tower = False, has_skirt = False,
       wipe_tower_partitions = 0, wipe_tower_layer_height = 0, custom_gcode = None \<rparr>"

text \<open>
  Modelled from the spec: \<^verbatim>\<open>sort_remove_duplicates\<close> is a utility of libslic3r that is
  not part of the sources at hand; the spec says of its use "deduplicating and
  sorting". It is \<^verbatim>\<open>std::sort\<close> followed by \<^verbatim>\<open>std::unique\<close>.
\<close>

definition sort_remove_duplicates :: "'a::linorder list \<Rightarrow> 'a list" where
  "sort_remove_duplicates xs = remdups_adj (sort xs)"

section \<open>initialize\_layers\<close>

text \<open>
  The loop of \<^verbatim>\<open>ToolOrdering::initialize_layers\<close> over the sorted heights. The head of
  the list is \<^verbatim>\<open>zs[i]\<close>; the heights taken by \<open>takeWhile\<close> are those the inner loop
  steps over (\<^verbatim>\<open>zs[j] <= zmax\<close>), so the last of them is \<^verbatim>\<open>zs[j-1]\<close>; the loop goes on
  with \<^verbatim>\<open>i = j\<close>, the first height above \<^verbatim>\<open>zmax\<close>.
\<close>

function merge_heights :: "rat \<Rightarrow> rat list \<Rightarrow> rat list" where
  "merge_heights eps [] = []"
| "merge_heights eps (z # zs) =
     (1 / 2 * (z + last (z # takeWhile (\<lambda>y. y \<le> z + eps) zs)))
       # merge_heights eps (dropWhile (\<lambda>y. y \<le> z + eps) zs)"
  by pat_completeness auto
termination
  by (relation "measure (\<lambda>(eps, zs). length zs)")
     (auto simp: le_imp_less_Suc length_dropWhile_le)

definition initialize_layers :: "rat \<Rightarrow> rat list \<Rightarrow> LayerTools list \<Rightarrow> LayerTools list" where
  "initialize_layers eps zs m_layer_tools =
     m_layer_tools @ map new_LayerTools (merge_heights eps (sort_remove_duplicates zs))"

text \<open>
  The groups of heights that \<open>merge_heights\<close> merges, for stating what it computes:
  a group starts at the lowest remaining height \<open>z\<close> and holds every following
  height up to \<open>z + eps\<close>.
\<close>

function height_groups :: "rat \<Rightarrow> rat list \<Rightarrow> rat list list" where
  "height_groups eps [] = []"
| "height_groups eps (z # zs) =
     (z # takeWhile (\<lambda>y. y \<le> z + eps) zs)
       # height_groups eps (dropWhile (\<lambda>y. y \<le> z + eps) zs)"
  by pat_completeness auto
termination
  by (relation "measure (\<lambda>(eps, zs). length zs)")
     (auto simp: le_imp_less_Suc length_dropWhile_le)

text \<open>The arithmetic mean of a list of heights, as the claim words it.\<close>

definition average :: "rat list \<Rightarrow> rat" where
  "average zs = sum_list zs / of_nat (length zs)"

section \<open>fill\_wipe\_tower\_partitions\<close>

text \<open>
  The first loop of \<^verbatim>\<open>ToolOrdering::fill_wipe_tower_partitions\<close>: the minimum number of
  tool changes of every layer. \<^verbatim>\<open>last_extruder\<close> is a \<^verbatim>\<open>size_t\<close> (64 bits) that starts as
  \<^verbatim>\<open>size_t(-1)\<close>; the extruder ids it is compared with and assigned from are widened
  from 32 bits. The decrement is only reached with a non-empty extruder list, so the
  counter (a \<^verbatim>\<open>size_t\<close>) never wraps and is modelled as a natural number.
\<close>

fun count_tool_changes :: "64 word \<Rightarrow> LayerTools list \<Rightarrow> LayerTools list" where
  "count_tool_changes last_extruder [] = []"
| "count_tool_changes last_extruder (lt # lts) =
     (let n = length (extruders lt) in
      if extruders lt \<noteq> [] then
        lt\<lparr>wipe_tower_partitions :=
             (if last_extruder = - 1 \<or> last_extruder = ucast (hd (extruders lt))
              then n - 1 else n)\<rparr>
          # count_tool_changes (ucast (last (extruders lt))) lts
      else lt\<lparr>wipe_tower_partitions := n\<rparr> # count_tool_changes last_extruder lts)"

text \<open>
  The second loop runs from the layer below the top one down to the first layer; when
  it reaches layer \<open>i\<close> the value of layer \<open>i + 1\<close> is already the propagated one.
\<close>

fun propagate_partitions :: "LayerTools list \<Rightarrow> LayerTools list" where
  "propagate_partitions [] = []"
| "propagate_partitions [lt] = [lt]"
| "propagate_partitions (lt # lt' # lts) =
     (let above = propagate_partitions (lt' # lts) in
      lt\<lparr>wipe_tower_partitions :=
           max (wipe_tower_partitions (hd above)) (wipe_tower_partitions lt)\<rparr> # above)"

text \<open>The third loop: which layers get a wipe tower. \<open>smooth\<close> stands for
  \<^verbatim>\<open>config.timelapse_type == TimelapseType::tlSmooth\<close>.\<close>

definition mark_wipe_tower :: "bool \<Rightarrow> rat \<Rightarrow> rat \<Rightarrow> LayerTools \<Rightarrow> LayerTools" where
  "mark_wipe_tower smooth object_bottom_z eps lt =
     lt\<lparr>has_wipe_tower :=
          (has_object lt \<and> (smooth \<or> wipe_tower_partitions lt > 0))
          \<or> print_z lt < object_bottom_z + eps\<rparr>"

text \<open>
  \<open>first_from P n j\<close> is the index at which a loop \<^verbatim>\<open>for (; j < n && !P(j); ++ j);\<close>
  stops: the first index from \<open>j\<close> on that satisfies \<open>P\<close>, or \<open>n\<close>.
\<close>

function first_from :: "(nat \<Rightarrow> bool) \<Rightarrow> nat \<Rightarrow> nat \<Rightarrow> nat" where
  "first_from P n j = (if j < n \<and> \<not> P j then first_from P n (Suc j) else j)"
  by pat_completeness auto
termination
  by (relation "measure (\<lambda>(P, n, j). n - j)") auto

declare first_from.simps [simp del]

text \<open>
  The raft test: at the last raft layer \<open>i\<close> (the first layer below the object bottom
  whose successor is not), look for the first wipe tower layer \<open>j\<close> above it; if the
  gap exceeds the maximum layer height, a layer at the middle height is marked or
  inserted. The inserted layer prints the first extruder of the layer above it and
  copies its \<open>wipe_tower_partitions\<close>. The source reads \<^verbatim>\<open>m_layer_tools[j]\<close> and
  \<^verbatim>\<open>lt_next.extruders.front()\<close> without a check (an \<^verbatim>\<open>assert\<close> only); where the index is
  out of range or the list is empty the behaviour is undefined, and the model
  returns \<open>None\<close>.
\<close>

definition insert_raft_gap_layer ::
  "rat \<Rightarrow> rat \<Rightarrow> rat \<Rightarrow> LayerTools list \<Rightarrow> LayerTools list option" where
  "insert_raft_gap_layer object_bottom_z max_layer_height eps lts =
     (let n = length lts;
          i = first_from (\<lambda>i. print_z (lts ! i) < object_bottom_z + eps \<and>
                               print_z (lts ! Suc i) \<ge> object_bottom_z + eps) (n - 1) 0
      in if \<not> i < n - 1 then Some lts
         else
           let j = first_from (\<lambda>j. has_wipe_tower (lts ! j)) n (Suc i) in
           if \<not> j < n then Some lts
           else
             let gap = print_z (lts ! j) - print_z (lts ! i) in
             if \<not> gap > max_layer_height + eps then Some lts
             else
               let lt_new = new_LayerTools (1 / 2 * (print_z (lts ! i) + print_z (lts ! j)));
                   j = first_from (\<lambda>j. \<not> print_z (lts ! j) < print_z lt_new - eps) n (Suc i)
               in if \<not> j < n then None
                  else if \<bar>print_z (lts ! j) - print_z lt_new\<bar> < eps
                  then Some (lts[j := (lts ! j)\<lparr>has_wipe_tower := True\<rparr>])
                  else
                    let lt_next = lts ! j in
                    if extruders lt_next = [] then None
                    else Some (take j lts
                               @ lt_new\<lparr>has_wipe_tower := True,
                                        extruders := [hd (extruders lt_next)],
                                        wipe_tower_partitions := wipe_tower_partitions lt_next\<rparr>
                               # drop j lts))"

text \<open>
  The loop over empty layers. The inner \<^verbatim>\<open>while (++j < size-1 && !has_wipe_tower[j])\<close>
  marks a layer when the next one would be more than the maximum layer height above
  the last wipe tower layer. \<open>n\<close> is \<^verbatim>\<open>m_layer_tools.size()\<close>, which the loop does not
  change.
\<close>

function mark_far_layers :: "rat \<Rightarrow> rat \<Rightarrow> nat \<Rightarrow> LayerTools list \<Rightarrow> nat \<Rightarrow> rat \<Rightarrow> LayerTools list" where
  "mark_far_layers max_layer_height eps n lts j last_z =
     (if j < n - 1 \<and> \<not> has_wipe_tower (lts ! j) then
        if print_z (lts ! Suc j) - last_z > max_layer_height + eps
        then mark_far_layers max_layer_height eps n
               (lts[j := (lts ! j)\<lparr>has_wipe_tower := True\<rparr>]) (Suc j) (print_z (lts ! j))
        else mark_far_layers max_layer_height eps n lts (Suc j) last_z
      else lts)"
  by pat_completeness auto
termination
  by (relation "measure (\<lambda>(mlh, eps, n, lts, j, z). n - j)") auto

declare mark_far_layers.simps [simp del]

function mark_missing_wipe_tower :: "rat \<Rightarrow> rat \<Rightarrow> nat \<Rightarrow> LayerTools list \<Rightarrow> nat \<Rightarrow> LayerTools list" where
  "mark_missing_wipe_tower max_layer_height eps n lts i =
     (if Suc i < n then
        let lt = lts ! i; lt_next = lts ! Suc i in
        if extruders lt = [] \<or> extruders lt_next = [] then lts
        else
          let lts1 =
                (if \<not> has_wipe_tower lt_next \<and>
                    (hd (extruders lt_next) \<noteq> last (extruders lt) \<or> length (extruders lt_next) > 1)
                 then lts[Suc i := lt_next\<lparr>has_wipe_tower := True\<rparr>] else lts);
              lts2 = mark_far_layers max_layer_height eps n lts1 (Suc (Suc i)) (print_z lt_next)
          in mark_missing_wipe_tower max_layer_height eps n lts2 (Suc i)
      else lts)"
  by pat_completeness auto
termination
  by (relation "measure (\<lambda>(mlh, eps, n, lts, i). n - i)") auto

declare mark_missing_wipe_tower.simps [simp del]

text \<open>The last loop: the height of every wipe tower layer above the one before.\<close>

fun wipe_tower_heights :: "rat \<Rightarrow> LayerTools list \<Rightarrow> LayerTools list" where
  "wipe_tower_heights wipe_tower_print_z_last [] = []"
| "wipe_tower_heights wipe_tower_print_z_last (lt # lts) =
     (if has_wipe_tower lt
      then lt\<lparr>wipe_tower_layer_height := print_z lt - wipe_tower_print_z_last\<rparr>
             # wipe_tower_heights (print_z lt) lts
      else lt # wipe_tower_heights wipe_tower_print_z_last lts)"

text \<open>The state after the first two loops, and the whole function.\<close>

definition count_and_propagate :: "LayerTools list \<Rightarrow> LayerTools list" where
  "count_and_propagate lts = propagate_partitions (count_tool_changes (- 1) lts)"

definition fill_wipe_tower_partitions ::
  "bool \<Rightarrow> rat \<Rightarrow> rat \<Rightarrow> rat \<Rightarrow> LayerTools list \<Rightarrow> LayerTools list option" where
  "fill_wipe_tower_partitions smooth object_bottom_z max_layer_height eps m_layer_tools =
     (if m_layer_tools = [] then Some m_layer_tools
      else
        case insert_raft_gap_layer object_bottom_z max_layer_height eps
               (map (mark_wipe_tower smooth object_bottom_z eps)
                  (count_and_propagate m_layer_tools)) of
          None \<Rightarrow> None
        | Some lts \<Rightarrow>
            Some (wipe_tower_heights 0
                    (mark_missing_wipe_tower max_layer_height eps (length lts) lts 0)))"

text \<open>
  \<open>last_extruder_is w p\<close>: the \<^verbatim>\<open>size_t\<close> variable \<^verbatim>\<open>last_extruder\<close> holds \<open>w\<close> when no layer
  has printed yet (\<open>p = None\<close>, \<open>w\<close> is \<^verbatim>\<open>size_t(-1)\<close>) or the last printing extruder was
  \<open>e\<close> (\<open>p = Some e\<close>). \<open>non_increasing\<close>: every element is at most the one before it.
\<close>

definition last_extruder_is :: "64 word \<Rightarrow> extruder_id option \<Rightarrow> bool" where
  "last_extruder_is w p = (case p of None \<Rightarrow> w = - 1 | Some e \<Rightarrow> w = ucast e)"

definition non_increasing :: "nat list \<Rightarrow> bool" where
  "non_increasing ws = (\<forall>i. Suc i < length ws \<longrightarrow> ws ! Suc i \<le> ws ! i)"

text \<open>
  For stating the claim: the last extruder of the nearest printing layer below layer
  \<open>i\<close>, and the number of tool changes layer \<open>i\<close> needs on its own.
\<close>

definition previous_last_extruder :: "LayerTools list \<Rightarrow> nat \<Rightarrow> extruder_id option" where
  "previous_last_extruder lts i =
     (case filter (\<lambda>lt. extruders lt \<noteq> []) (take i lts) of
        [] \<Rightarrow> None
      | p # ps \<Rightarrow> Some (last (extruders (last (p # ps)))))"

definition own_tool_changes :: "LayerTools list \<Rightarrow> nat \<Rightarrow> nat" where
  "own_tool_changes lts i =
     (let es = extruders (lts ! i) in
      if es = [] then 0
      else if previous_last_extruder lts i = None \<or> previous_last_extruder lts i = Some (hd es)
      then length es - 1 else length es)"

section \<open>WipingExtrusions: the per-entity overrides\<close>

text \<open>
  The side table of a layer. Entities and objects are pointers in the source; the
  model names them by natural numbers. \<^verbatim>\<open>ExtruderPerCopy\<close> is a \<^verbatim>\<open>std::vector<int>\<close>; the
  extruder numbers stored in it are C++ \<^verbatim>\<open>int\<close>s, modelled as integers (no arithmetic
  on them comes near the 32-bit range).
\<close>

record WipingExtrusions =
  entity_map :: "nat \<times> nat \<rightharpoonup> int list"
  support_map :: "nat \<rightharpoonup> int"
  support_intf_map :: "nat \<rightharpoonup> int"
  something_overridden :: bool
  something_overridable :: bool

text \<open>\<^verbatim>\<open>std::vector::resize(n, x)\<close>: cut to \<open>n\<close> elements or padded with \<open>x\<close>.\<close>

definition resize :: "nat \<Rightarrow> 'a \<Rightarrow> 'a list \<Rightarrow> 'a list" where
  "resize n x xs = take n xs @ replicate (n - length xs) x"

text \<open>
  \<^verbatim>\<open>WipingExtrusions::set_extruder_override\<close>. \<^verbatim>\<open>emplace\<close> adds an empty vector only when
  the key is new. The message printed when a copy is overridden twice changes no
  state and is left out. With \<open>copy_id\<close> not below \<open>num_of_copies\<close> the source writes
  out of range (undefined behaviour); the list update of the model leaves the vector
  as it is there, and the theorems are stated for calls in range.
\<close>

definition set_extruder_override ::
  "nat \<Rightarrow> nat \<Rightarrow> nat \<Rightarrow> int \<Rightarrow> nat \<Rightarrow> WipingExtrusions \<Rightarrow> WipingExtrusions" where
  "set_extruder_override entity object copy_id extruder num_of_copies w =
     (let copies_vector =
            (case entity_map w (entity, object) of None \<Rightarrow> [] | Some v \<Rightarrow> v);
          copies_vector = resize num_of_copies (- 1) copies_vector;
          copies_vector = copies_vector[copy_id := extruder]
      in w\<lparr>something_overridden := True,
            entity_map := (entity_map w)((entity, object) \<mapsto> copies_vector)\<rparr>)"

text \<open>
  \<^verbatim>\<open>WipingExtrusions::get_extruder_overrides\<close> returns a pointer to the vector stored in
  the map, which it has resized and rewritten in place, or \<^verbatim>\<open>nullptr\<close>: the model
  returns the vector (or \<open>None\<close>) together with the new state.
\<close>

definition get_extruder_overrides ::
  "nat \<Rightarrow> nat \<Rightarrow> int \<Rightarrow> nat \<Rightarrow> WipingExtrusions \<Rightarrow> int list option \<times> WipingExtrusions" where
  "get_extruder_overrides entity object correct_extruder_id num_of_copies w =
     (case entity_map w (entity, object) of
        None \<Rightarrow> (None, w)
      | Some v \<Rightarrow>
          let overrides = map (\<lambda>x. if x = - 1 then - correct_extruder_id - 1 else x)
                            (resize num_of_copies (- 1) v)
          in (Some overrides, w\<lparr>entity_map := (entity_map w)((entity, object) \<mapsto> overrides)\<rparr>))"

text \<open>
  A call of \<^verbatim>\<open>set_extruder_override\<close>, for stating what a sequence of calls leaves in the
  table: entity, object, copy, extruder, number of copies.
\<close>

datatype override_call = OverrideCall nat nat nat int nat

fun call_entity :: "override_call \<Rightarrow> nat \<times> nat" where
  "call_entity (OverrideCall entity object copy_id extruder num_of_copies) = (entity, object)"

fun call_copy :: "override_call \<Rightarrow> nat" where
  "call_copy (OverrideCall entity object copy_id extruder num_of_copies) = copy_id"

fun call_extruder :: "override_call \<Rightarrow> int" where
  "call_extruder (OverrideCall entity object copy_id extruder num_of_copies) = extruder"

fun call_copies :: "override_call \<Rightarrow> nat" where
  "call_copies (OverrideCall entity object copy_id extruder num_of_copies) = num_of_copies"

fun run_call :: "WipingExtrusions \<Rightarrow> override_call \<Rightarrow> WipingExtrusions" where
  "run_call w (OverrideCall entity object copy_id extruder num_of_copies) =
     set_extruder_override entity object copy_id extruder num_of_copies w"

definition run_calls :: "WipingExtrusions \<Rightarrow> override_call list \<Rightarrow> WipingExtrusions" where
  "run_calls w calls = foldl run_call w calls"

text \<open>The calls that override copy \<open>c\<close> of the pair \<open>k\<close>, in the order they were made.\<close>

definition overrides_of :: "override_call list \<Rightarrow> nat \<times> nat \<Rightarrow> nat \<Rightarrow> override_call list" where
  "overrides_of calls k c = filter (\<lambda>call. call_entity call = k \<and> call_copy call = c) calls"

text \<open>A fresh table, as the layer has it before any extrusion is marked.\<close>

definition empty_WipingExtrusions :: WipingExtrusions where
  "empty_WipingExtrusions =
     \<lparr> entity_map = Map.empty, support_map = Map.empty, support_intf_map = Map.empty,
       something_overridden = False, something_overridable = False \<rparr>"

section \<open>reorder\_extruders\<close>

text \<open>
  The body of the loop over the layers in both overloads of
  \<^verbatim>\<open>ToolOrdering::reorder_extruders\<close>. \<open>drop_sentinel\<close> pops the "don't care" extruder
  \<open>0\<close> from the front; \<open>move_to_front\<close> is the search from index 1 for
  \<^verbatim>\<open>last_extruder_id\<close> with the \<^verbatim>\<open>memmove\<close> that shifts the elements before the hit one
  place up and writes the hit to the front.
\<close>

definition drop_sentinel :: "extruder_id list \<Rightarrow> extruder_id list" where
  "drop_sentinel es = (if hd es = 0 then tl es else es)"

definition move_to_front :: "extruder_id \<Rightarrow> extruder_id list \<Rightarrow> extruder_id list" where
  "move_to_front last_extruder_id es =
     (let i = first_from (\<lambda>i. es ! i = last_extruder_id) (length es) 1
      in if i < length es then last_extruder_id # take i es @ drop (Suc i) es else es)"

text \<open>
  On the first layer with a wipe tower the first soluble extruder is swapped to the
  front. \<open>filament_soluble\<close> stands for \<^verbatim>\<open>m_print_config_ptr->filament_soluble.get_at\<close>; the
  ids are still one-based here, hence the \<open>- 1\<close>.
\<close>

definition prefer_soluble :: "(nat \<Rightarrow> bool) \<Rightarrow> extruder_id list \<Rightarrow> extruder_id list" where
  "prefer_soluble filament_soluble es =
     (let i = first_from (\<lambda>i. filament_soluble (unat (es ! i - 1))) (length es) 0
      in if i < length es then es[0 := es ! i, i := es ! 0] else es)"

definition reorder_layer ::
  "bool \<Rightarrow> (nat \<Rightarrow> bool) \<Rightarrow> extruder_id \<Rightarrow> extruder_id list \<Rightarrow> extruder_id list" where
  "reorder_layer first_with_prime_tower filament_soluble last_extruder_id es =
     (if length es = 1 \<and> hd es = 0 then [last_extruder_id]
      else
        let es = move_to_front last_extruder_id (drop_sentinel es)
        in if first_with_prime_tower then prefer_soluble filament_soluble es else es)"

text \<open>
  The loop of the first overload. \<open>enable_prime_tower\<close> stands for
  \<^verbatim>\<open>m_print_config_ptr && m_print_config_ptr->enable_prime_tower\<close>. The test
  \<^verbatim>\<open>lt == m_layer_tools[0]\<close> uses \<^verbatim>\<open>LayerTools::operator==\<close> of ToolOrdering.hpp, which
  compares \<open>print_z\<close>; \<open>z0\<close> is the \<open>print_z\<close> of the first layer. Layers without
  extruders are skipped and keep the carried extruder.
\<close>

fun reorder_loop ::
  "bool \<Rightarrow> (nat \<Rightarrow> bool) \<Rightarrow> rat \<Rightarrow> extruder_id \<Rightarrow> LayerTools list \<Rightarrow> LayerTools list" where
  "reorder_loop enable_prime_tower filament_soluble z0 last_extruder_id [] = []"
| "reorder_loop enable_prime_tower filament_soluble z0 last_extruder_id (lt # lts) =
     (if extruders lt = []
      then lt # reorder_loop enable_prime_tower filament_soluble z0 last_extruder_id lts
      else
        let es = reorder_layer (print_z lt = z0 \<and> enable_prime_tower) filament_soluble
                   last_extruder_id (extruders lt)
        in lt\<lparr>extruders := es\<rparr>
             # reorder_loop enable_prime_tower filament_soluble z0 (last es) lts)"

text \<open>The re-indexing loop: every id is decremented, as a 32-bit \<^verbatim>\<open>unsigned int\<close>.\<close>

definition reindex_extruders :: "LayerTools list \<Rightarrow> LayerTools list" where
  "reindex_extruders lts = map (\<lambda>lt. lt\<lparr>extruders := map (\<lambda>e. e - 1) (extruders lt)\<rparr>) lts"

text \<open>The search for the first non-zero extruder id of the print.\<close>

fun first_nonzero_extruder :: "LayerTools list \<Rightarrow> extruder_id" where
  "first_nonzero_extruder [] = 0"
| "first_nonzero_extruder (lt # lts) =
     (case find (\<lambda>e. 0 < e) (extruders lt) of
        Some e \<Rightarrow> e
      | None \<Rightarrow> first_nonzero_extruder lts)"

text \<open>
  \<^verbatim>\<open>ToolOrdering::reorder_extruders(unsigned int last_extruder_id)\<close> up to its last
  statement. That statement calls \<^verbatim>\<open>reorder_extruders_for_minimum_flush_volume\<close>, which
  hands the layers to the sequencer of GCode/ToolOrderUtils, whose code is not part of
  the sources at hand; the model stops before it.
\<close>

definition reorder_extruders ::
  "bool \<Rightarrow> (nat \<Rightarrow> bool) \<Rightarrow> extruder_id \<Rightarrow> LayerTools list \<Rightarrow> LayerTools list" where
  "reorder_extruders enable_prime_tower filament_soluble last_extruder_id m_layer_tools =
     (if m_layer_tools = [] then m_layer_tools
      else if last_extruder_id = - 1 then
        let last_extruder_id = first_nonzero_extruder m_layer_tools in
        if last_extruder_id = 0 then m_layer_tools
        else reindex_extruders
               (reorder_loop enable_prime_tower filament_soluble (print_z (hd m_layer_tools))
                  last_extruder_id m_layer_tools)
      else reindex_extruders
             (reorder_loop enable_prime_tower filament_soluble (print_z (hd m_layer_tools))
                (last_extruder_id + 1) m_layer_tools))"

text \<open>
  The second overload, \<^verbatim>\<open>reorder_extruders(std::vector<unsigned int> tool_order_layer0)\<close>.
  The first layer takes the extruders of the tool order that it uses, in that order
  (each hit is overwritten with \<^verbatim>\<open>(unsigned int)-1\<close> in the copy), then its other
  non-zero extruders; if nothing is left it takes the first extruder of the tool
  order.
\<close>

fun take_in_order ::
  "extruder_id list \<Rightarrow> extruder_id list \<Rightarrow> extruder_id list \<Rightarrow> extruder_id list \<times> extruder_id list" where
  "take_in_order [] layer0_extruders acc = (layer0_extruders, acc)"
| "take_in_order (extruder_id # tool_order) layer0_extruders acc =
     (let i = first_from (\<lambda>i. layer0_extruders ! i = extruder_id) (length layer0_extruders) 0
      in if i < length layer0_extruders
         then take_in_order tool_order (layer0_extruders[i := - 1]) (acc @ [extruder_id])
         else take_in_order tool_order layer0_extruders acc)"

definition reorder_first_layer :: "extruder_id list \<Rightarrow> extruder_id list \<Rightarrow> extruder_id list" where
  "reorder_first_layer tool_order_layer0 es =
     (let (layer0_extruders, ordered) = take_in_order tool_order_layer0 es [];
          ordered = ordered @ filter (\<lambda>e. e \<noteq> 0 \<and> e \<noteq> - 1) layer0_extruders
      in if ordered = [] \<and> tool_order_layer0 \<noteq> [] then [hd tool_order_layer0] else ordered)"

definition reorder_extruders_order :: "extruder_id list \<Rightarrow> LayerTools list \<Rightarrow> LayerTools list" where
  "reorder_extruders_order tool_order_layer0 m_layer_tools =
     (case m_layer_tools of
        [] \<Rightarrow> []
      | lt0 # lts \<Rightarrow>
          let lt0 = lt0\<lparr>extruders := reorder_first_layer tool_order_layer0 (extruders lt0)\<rparr>;
              last_extruder_id =
                (if extruders lt0 = [] then first_nonzero_extruder lts
                 else last (extruders lt0))
          in reindex_extruders
               (lt0 # reorder_loop False (\<lambda>f. False) (print_z lt0) last_extruder_id lts))"

text \<open>
  For stating the claims: the extruder carried over to layer \<open>i\<close>, which is the last
  extruder of the nearest layer below \<open>i\<close> that prints, or the initial one; a valid
  one-based id (not the sentinel, at most the number of extruders); and the bound on
  the zero-based ids of the result.
\<close>

definition carried_extruder :: "extruder_id \<Rightarrow> LayerTools list \<Rightarrow> nat \<Rightarrow> extruder_id" where
  "carried_extruder last_extruder_id lts i =
     (case filter (\<lambda>lt. extruders lt \<noteq> []) (take i lts) of
        [] \<Rightarrow> last_extruder_id
      | p # ps \<Rightarrow> last (extruders (last (p # ps))))"

definition valid_id :: "nat \<Rightarrow> extruder_id \<Rightarrow> bool" where
  "valid_id n e \<longleftrightarrow> e \<noteq> 0 \<and> unat e \<le> n"

definition ids_in_range :: "nat \<Rightarrow> LayerTools list \<Rightarrow> bool" where
  "ids_in_range extruder_count lts =
     list_all (list_all (\<lambda>e. unat e < extruder_count)) (map extruders lts)"

section \<open>mark\_skirt\_layers\<close>

text \<open>
  \<^verbatim>\<open>while (m_layer_tools[k].extruders.empty()) -- k;\<close> of
  \<^verbatim>\<open>ToolOrdering::mark_skirt_layers\<close>: the nearest layer at or below \<open>k\<close> that prints.
  \<open>k\<close> is a \<^verbatim>\<open>size_t\<close>; stepping below index 0 would wrap and read out of range
  (undefined behaviour), which the model returns as \<open>None\<close>.
\<close>

fun step_down :: "LayerTools list \<Rightarrow> nat \<Rightarrow> nat option" where
  "step_down lts 0 = (if extruders (lts ! 0) = [] then None else Some 0)"
| "step_down lts (Suc k) =
     (if extruders (lts ! Suc k) = [] then step_down lts k else Some (Suc k))"

text \<open>
  The loop over the layers \<open>k\<close> between two successive object layers \<open>i\<close> and \<open>j\<close>. The
  source changes \<open>k\<close> inside the body, so the loop goes on from the layer above the
  one it marked. \<open>j\<close> is below \<^verbatim>\<open>m_layer_tools.size()\<close> wherever the source reaches this
  loop; the model keeps that as part of the loop condition.
\<close>

function skirt_between ::
  "rat \<Rightarrow> rat \<Rightarrow> nat \<Rightarrow> LayerTools list \<Rightarrow> nat \<Rightarrow> rat \<Rightarrow> LayerTools list option" where
  "skirt_between max_layer_height eps j lts k last_z =
     (if k < j \<and> j < length lts then
        if print_z (lts ! Suc k) - last_z > max_layer_height + eps then
          case step_down lts k of
            None \<Rightarrow> None
          | Some k' \<Rightarrow>
              if has_skirt (lts ! k') then Some lts
              else skirt_between max_layer_height eps j
                     (lts[k' := (lts ! k')\<lparr>has_skirt := True\<rparr>]) (Suc k') (print_z (lts ! k'))
        else skirt_between max_layer_height eps j lts (Suc k) last_z
      else Some lts)"
  by pat_completeness auto
termination
proof -
  have le: "step_down lts l = Some m \<Longrightarrow> m \<le> l" for lts l m
    by (induction l) (auto split: if_splits)
  have fewer: "i < length xs \<Longrightarrow> \<not> has_skirt (xs ! i) \<Longrightarrow>
      length (filter (\<lambda>lt. \<not> has_skirt lt) (xs[i := (xs ! i)\<lparr>has_skirt := True\<rparr>]))
        < length (filter (\<lambda>lt. \<not> has_skirt lt) xs)" for xs :: "LayerTools list" and i
  proof (induction xs arbitrary: i)
    case Nil
    then show ?case by simp
  next
    case (Cons x xs)
    show ?case
    proof (cases i)
      case 0
      with Cons.prems show ?thesis by (simp add: le_imp_less_Suc)
    next
      case (Suc m)
      with Cons.prems Cons.IH[of m] show ?thesis by simp
    qed
  qed
  have marked: "k < j \<Longrightarrow> j < length lts \<Longrightarrow> step_down lts k = Some k' \<Longrightarrow>
      \<not> has_skirt (lts ! k') \<Longrightarrow>
      length (filter (\<lambda>lt. \<not> has_skirt lt) (lts[k' := (lts ! k')\<lparr>has_skirt := True\<rparr>]))
        < length (filter (\<lambda>lt. \<not> has_skirt lt) lts)" for k j k' and lts :: "LayerTools list"
    using le[of lts k k'] by (intro fewer) auto
  show ?thesis
    by (relation "inv_image (less_than <*lex*> less_than)
          (\<lambda>(mlh, eps, j, lts, k, z). (length (filter (\<lambda>lt. \<not> has_skirt lt) lts), j - k))")
       (auto simp: marked)
qed

declare skirt_between.simps [simp del]

text \<open>
  The outer loop: layer \<open>i\<close> is marked, \<open>j\<close> is the next layer that prints an object, and
  no skirt is printed above the last object layer. \<open>n\<close> is \<^verbatim>\<open>m_layer_tools.size()\<close>, which
  the loop does not change; \<open>i\<close> is below it wherever the source reads
  \<^verbatim>\<open>m_layer_tools[i]\<close>.
\<close>

function skirt_from ::
  "rat \<Rightarrow> rat \<Rightarrow> nat \<Rightarrow> LayerTools list \<Rightarrow> nat \<Rightarrow> LayerTools list option" where
  "skirt_from max_layer_height eps n lts i =
     (if i < n then
        let lts = lts[i := (lts ! i)\<lparr>has_skirt := True\<rparr>];
            j = first_from (\<lambda>j. has_object (lts ! j)) n (Suc i)
        in if \<not> j < n then Some lts
           else
             case skirt_between max_layer_height eps j lts (Suc i) (print_z (lts ! i)) of
               None \<Rightarrow> None
             | Some lts \<Rightarrow> skirt_from max_layer_height eps n lts j
      else Some lts)"
  by pat_completeness auto
termination
proof -
  have ge: "l \<le> first_from P m l" for P m l
  proof (induction P m l rule: first_from.induct)
    case (1 P m l)
    show ?case
    proof (cases "l < m \<and> \<not> P l")
      case True
      with "1.IH" show ?thesis by (subst first_from.simps) auto
    next
      case False
      then show ?thesis by (subst first_from.simps) auto
    qed
  qed
  have "n - first_from P n (Suc i) < n - i" if "first_from P n (Suc i) < n" for P n i
    using ge[of "Suc i" P n] that by arith
  then show ?thesis
    by (relation "measure (\<lambda>(mlh, eps, n, lts, i). n - i)") auto
qed

declare skirt_from.simps [simp del]

definition mark_skirt_layers :: "rat \<Rightarrow> rat \<Rightarrow> LayerTools list \<Rightarrow> LayerTools list option" where
  "mark_skirt_layers max_layer_height eps m_layer_tools =
     (if m_layer_tools = [] then Some m_layer_tools
      else if extruders (hd m_layer_tools) = [] then Some m_layer_tools
      else skirt_from max_layer_height eps (length m_layer_tools) m_layer_tools 0)"

text \<open>
  For stating the claim. \<open>skirt_marks_only lts out\<close>: \<open>out\<close> is \<open>lts\<close> with some more layers
  marked \<open>has_skirt\<close> and nothing else changed. \<open>skirt_covered B out b\<close>: a skirt layer
  lies below layer \<open>b\<close>, at most \<open>B\<close> lower. \<open>prints_within B lts\<close>: every layer, up to the
  last object layer, that has extruders or prints an object lies at most \<open>B\<close> above a
  layer with extruders below it.
\<close>

definition skirt_marks_only :: "LayerTools list \<Rightarrow> LayerTools list \<Rightarrow> bool" where
  "skirt_marks_only lts out \<longleftrightarrow>
     length out = length lts \<and>
     (\<forall>b<length lts. out ! b = (lts ! b)\<lparr>has_skirt := has_skirt (out ! b)\<rparr> \<and>
                      (has_skirt (lts ! b) \<longrightarrow> has_skirt (out ! b)))"

definition skirt_covered :: "rat \<Rightarrow> LayerTools list \<Rightarrow> nat \<Rightarrow> bool" where
  "skirt_covered B out b \<longleftrightarrow>
     (\<exists>a<b. has_skirt (out ! a) \<and> print_z (out ! b) - print_z (out ! a) \<le> B)"

definition all_skirt_covered :: "rat \<Rightarrow> LayerTools list \<Rightarrow> bool" where
  "all_skirt_covered B out \<longleftrightarrow>
     (\<forall>b<length out. 0 < b \<and> has_skirt (out ! b) \<longrightarrow> skirt_covered B out b)"

definition prints_within :: "rat \<Rightarrow> LayerTools list \<Rightarrow> bool" where
  "prints_within B lts \<longleftrightarrow>
     (\<forall>b<length lts.
        0 < b \<and> (extruders (lts ! b) \<noteq> [] \<or> has_object (lts ! b)) \<and>
        (\<exists>c. b \<le> c \<and> c < length lts \<and> has_object (lts ! c)) \<longrightarrow>
        (\<exists>a<b. extruders (lts ! a) \<noteq> [] \<and> print_z (lts ! b) - print_z (lts ! a) \<le> B))"

section \<open>Filament grouping: the TPU rule and the automatic map\<close>

text \<open>
  The part of \<^verbatim>\<open>PrintConfig\<close> and of \<^verbatim>\<open>Print\<close> that the grouping code reads. Filament ids
  index the configuration vectors and are modelled as natural numbers; extruder
  indices are C++ \<^verbatim>\<open>int\<close>s. \<open>filament_type\<close>, \<open>nozzle_hrc\<close> and \<open>required_nozzle_HRC\<close> stand
  for the \<^verbatim>\<open>get_at\<close> accessors of the configuration options (\<open>nozzle_hrc\<close> for
  \<^verbatim>\<open>Print::get_hrc_by_nozzle_type\<close> of the nozzle type), \<open>nozzle_count\<close> for
  \<^verbatim>\<open>nozzle_diameter.size()\<close>, \<open>filament_count\<close> for \<^verbatim>\<open>filament_colour.values.size()\<close>,
  \<open>extruder_ams_counts\<close> for the result of \<^verbatim>\<open>get_extruder_ams_count\<close> (per extruder, pairs
  of slot count and number of units), \<open>by_object\<close> for
  \<^verbatim>\<open>print_sequence == PrintSequence::ByObject\<close>. \<open>master_extruder_id\<close> and \<open>filament_maps\<close>
  are one-based, as they are saved.
\<close>

record GroupingConfig =
  filament_type :: "nat \<Rightarrow> string"
  master_extruder_id :: int
  nozzle_count :: nat
  nozzle_hrc :: "nat \<Rightarrow> int"
  required_nozzle_HRC :: "nat \<Rightarrow> int"
  filament_count :: nat
  extruder_ams_counts :: "(int \<times> int) list list"
  by_object :: bool

datatype FilamentMapMode = fmmAuto | fmmManual

record PrintState =
  filament_maps :: "int list"
  filament_map_mode :: FilamentMapMode
  object_count :: nat

record FilamentGroupContext =
  max_group_size :: "int list"
  total_filament_num :: nat
  ctx_master_extruder_id :: int
  physical_unprintables :: "nat set list"
  geometric_unprintables :: "nat set list"

text \<open>
  What the driver can end with: the \<^verbatim>\<open>Slic3r::RuntimeError\<close> it throws, with its message,
  or an index out of the range of a vector, which is undefined behaviour in the
  source.
\<close>

datatype grouping_error = RuntimeError string | OutOfRange

text \<open>
  Modelled from the spec: \<^verbatim>\<open>collect_sorted_used_filaments\<close> belongs to
  GCode/ToolOrderUtils, which is not part of the sources at hand; the spec speaks of
  "the set of filament ids actually used across the whole job". It is the sorted list,
  without duplicates, of the filaments of all layers.
\<close>

definition collect_sorted_used_filaments :: "nat list list \<Rightarrow> nat list" where
  "collect_sorted_used_filaments layer_filaments = sort_remove_duplicates (concat layer_filaments)"

text \<open>\<^verbatim>\<open>get_filament_by_type\<close> returns a \<^verbatim>\<open>std::set<int>\<close>, modelled by the sorted list of its
  elements.\<close>

definition get_filament_by_type :: "nat list \<Rightarrow> GroupingConfig \<Rightarrow> string \<Rightarrow> nat list" where
  "get_filament_by_type used_filaments config type =
     sort_remove_duplicates (filter (\<lambda>filament_id. filament_type config filament_id = type) used_filaments)"

text \<open>The loop over the nozzle hardness in \<^verbatim>\<open>get_physical_unprintables\<close>.\<close>

definition add_hrc_unprintables :: "GroupingConfig \<Rightarrow> nat list \<Rightarrow> nat set list \<Rightarrow> nat set list" where
  "add_hrc_unprintables config used_filaments unprintables =
     map (\<lambda>(eid, s). s \<union> {f \<in> set used_filaments. required_nozzle_HRC config f > nozzle_hrc config eid})
       (zip [0..<length unprintables] unprintables)"

definition get_physical_unprintables ::
  "nat list \<Rightarrow> GroupingConfig \<Rightarrow> grouping_error + nat set list" where
  "get_physical_unprintables used_filaments config =
     (let master = master_extruder_id config - 1;
          tpu_filaments = get_filament_by_type used_filaments config ''TPU''
      in if length tpu_filaments > 1
         then Inl (RuntimeError ''Only supports up to one TPU filament.'')
         else
           let extruder_num = nozzle_count config;
               unprintables = replicate extruder_num {}
           in if extruder_num < 2 then Inr unprintables
              else
                let extruder_without_tpu = 1 - master in
                if tpu_filaments \<noteq> [] \<and>
                   \<not> (0 \<le> extruder_without_tpu \<and> extruder_without_tpu < int extruder_num)
                then Inl OutOfRange
                else
                  let unprintables =
                        (if tpu_filaments = [] then unprintables
                         else unprintables[nat extruder_without_tpu :=
                                set tpu_filaments \<union> unprintables ! nat extruder_without_tpu])
                  in Inr (add_hrc_unprintables config used_filaments unprintables))"

text \<open>
  \<^verbatim>\<open>ToolOrdering::check_tpu_group\<close>. The loop returns \<^verbatim>\<open>false\<close> at a second TPU filament
  (\<open>None\<close>) or ends with \<^verbatim>\<open>check_extruder_id\<close>, which starts as \<open>-1\<close>;
  \<^verbatim>\<open>extruder_filament_nums[e]\<close> is the list of the used filaments mapped to \<open>e\<close>.
\<close>

fun check_tpu_loop :: "GroupingConfig \<Rightarrow> int list \<Rightarrow> nat list \<Rightarrow> int \<Rightarrow> int option" where
  "check_tpu_loop config maps [] check_extruder_id = Some check_extruder_id"
| "check_tpu_loop config maps (filament_id # used) check_extruder_id =
     (if filament_type config filament_id = ''TPU'' then
        if check_extruder_id = - 1 then check_tpu_loop config maps used (maps ! filament_id)
        else None
      else check_tpu_loop config maps used check_extruder_id)"

definition check_tpu_group :: "nat list \<Rightarrow> int list \<Rightarrow> GroupingConfig \<Rightarrow> bool" where
  "check_tpu_group used_filaments maps config =
     (let master = master_extruder_id config - 1 in
      case check_tpu_loop config maps used_filaments (- 1) of
        None \<Rightarrow> False
      | Some check_extruder_id \<Rightarrow>
          \<not> (check_extruder_id \<noteq> - 1 \<and>
             (check_extruder_id \<noteq> master \<or>
              length (filter (\<lambda>f. maps ! f = check_extruder_id) used_filaments) > 1)))"

text \<open>
  The capacities of \<^verbatim>\<open>get_recommended_filament_maps\<close>: 16 for both extruders when no AMS
  counts are configured, else the sum of slots times units per extruder, and 1 where
  that sum is 0 (only an external filament can be used). The source asserts two
  entries.
\<close>

definition ams_capacity :: "(int \<times> int) list \<Rightarrow> int" where
  "ams_capacity ams_count = (let s = sum_list (map (\<lambda>(slots, units). slots * units) ams_count)
                             in if s = 0 then 1 else s)"

definition group_sizes :: "(int \<times> int) list list \<Rightarrow> int list" where
  "group_sizes counts =
     (if counts = [] then [16, 16]
      else map (\<lambda>i. if i < length counts then ams_capacity (counts ! i) else 16) [0, 1])"

text \<open>
  \<^verbatim>\<open>ToolOrdering::get_recommended_filament_maps\<close> for a configuration that is present.
  Without a TPU filament the map comes from \<^verbatim>\<open>FilamentGroup::calc_filament_group\<close>,
  \<^verbatim>\<open>optimize_group_for_master_extruder\<close> and \<^verbatim>\<open>select_best_group_for_ams\<close>, none of which
  is part of the sources at hand: \<open>optimizer\<close> stands for the three together (with the
  flush matrices and colours they read), as a function of the context, the layers and
  the used filaments.
\<close>

definition get_recommended_filament_maps ::
  "(FilamentGroupContext \<Rightarrow> nat list list \<Rightarrow> nat list \<Rightarrow> int list) \<Rightarrow> nat list list \<Rightarrow>
   GroupingConfig \<Rightarrow> nat set list \<Rightarrow> nat set list \<Rightarrow> int list" where
  "get_recommended_filament_maps optimizer layer_filaments config physical geometric =
     (if layer_filaments = [] then []
      else
        let filament_nums = filament_count config;
            ret = replicate filament_nums 0
        in if nozzle_count config = 2 then
             let context = \<lparr> max_group_size = group_sizes (extruder_ams_counts config),
                             total_filament_num = filament_nums,
                             ctx_master_extruder_id = master_extruder_id config - 1,
                             physical_unprintables = physical,
                             geometric_unprintables = geometric \<rparr>;
                 used_filaments = collect_sorted_used_filaments layer_filaments;
                 tpu_filaments = get_filament_by_type used_filaments config ''TPU''
             in if tpu_filaments \<noteq> [] then
                  map (\<lambda>fidx. if fidx \<in> set tpu_filaments then ctx_master_extruder_id context
                              else 1 - ctx_master_extruder_id context) [0..<filament_nums]
                else optimizer context layer_filaments used_filaments
           else ret)"

text \<open>
  \<^verbatim>\<open>ToolOrdering::reorder_extruders_for_minimum_flush_volume\<close> up to the point where the
  zero-based filament map is fixed and the sequencer is called: the result is that
  map, \<open>None\<close> when the function returns before sequencing, or the error thrown.
  \<open>geometric\<close> stands for the result of \<^verbatim>\<open>get_geometrical_unprintables\<close> on the
  unprintable filament ids of the print. \<open>checked_filament_maps\<close> is the zero-based map
  that is handed to \<^verbatim>\<open>check_tpu_group\<close> on a printer with several nozzles: the
  recommended one in automatic mode (made one-based for the configuration and
  zero-based again), the one of the print in manual mode.
\<close>

definition checked_filament_maps :: "PrintState \<Rightarrow> int list \<Rightarrow> int list" where
  "checked_filament_maps print recommended =
     (let maps = (if filament_map_mode print = fmmAuto
                  then map (\<lambda>v. v + 1) recommended
                  else filament_maps print)
      in map (\<lambda>v. v - 1) maps)"

definition driver_filament_maps ::
  "(FilamentGroupContext \<Rightarrow> nat list list \<Rightarrow> nat list \<Rightarrow> int list) \<Rightarrow> GroupingConfig \<Rightarrow>
   PrintState \<Rightarrow> nat set list \<Rightarrow> nat list list \<Rightarrow> grouping_error + int list option" where
  "driver_filament_maps optimizer config print geometric layer_filaments =
     (if layer_filaments = [] then Inr None
      else
        let number_of_extruders = filament_count config;
            nozzle_nums = nozzle_count config;
            used_filaments = collect_sorted_used_filaments layer_filaments
        in case get_physical_unprintables used_filaments config of
             Inl e \<Rightarrow> Inl e
           | Inr physical \<Rightarrow>
               if nozzle_nums > 1 then
                 if \<not> by_object config \<or> object_count print = 1 then
                   let recommended =
                         get_recommended_filament_maps optimizer layer_filaments config
                           physical geometric
                   in if filament_map_mode print = fmmAuto \<and> recommended = [] then Inr None
                      else
                        let maps = checked_filament_maps print recommended
                        in if \<not> check_tpu_group used_filaments maps config then
                             if filament_map_mode print = fmmManual
                             then Inl (RuntimeError
                                    ''Manual grouping error: TPU can only be placed in a nozzle alone.'')
                             else Inl (RuntimeError
                                    ''Auto grouping error: TPU can only be placed in a nozzle alone.'')
                           else Inr (Some maps)
                 else Inr (Some (map (\<lambda>v. v - 1) (filament_maps print)))
               else if nozzle_nums = 1 then
                 let maps = filament_maps print;
                     maps = (if list_ex (\<lambda>v. v \<noteq> 1) maps then replicate (length maps) 1 else maps)
                 in Inr (Some (map (\<lambda>v. v - 1) maps))
               else Inr (Some (replicate number_of_extruders 0)))"

text \<open>
  For stating the claims: the map puts a TPU filament on another extruder than the
  master one, or another used filament on the extruder of a TPU filament; and the
  number of used filaments a map puts on an extruder.
\<close>

definition tpu_misplaced :: "GroupingConfig \<Rightarrow> nat list \<Rightarrow> int list \<Rightarrow> bool" where
  "tpu_misplaced config used_filaments maps =
     list_ex (\<lambda>t. filament_type config t = ''TPU'' \<and>
                  (maps ! t \<noteq> master_extruder_id config - 1 \<or>
                   list_ex (\<lambda>f. f \<noteq> t \<and> maps ! f = maps ! t) used_filaments))
       used_filaments"

definition filaments_on :: "int list \<Rightarrow> nat list \<Rightarrow> int \<Rightarrow> nat" where
  "filaments_on maps used_filaments extruder =
     length (filter (\<lambda>f. maps ! f = extruder) used_filaments)"

text \<open>
  Modelled from the spec: the hard constraints of the Filament Group Optimizer on a map
  for two extruders. "Each extruder's assigned filament count \<le> its configured
  capacity"; "a filament in an extruder's physical- or geometric-unprintable set for
  that extruder cannot be assigned there"; "at most one TPU filament total; if one
  exists, it is pinned to the master extruder and no other filament may share that
  extruder". The capacities and the unprintable sets are those of the context that
  \<^verbatim>\<open>get_recommended_filament_maps\<close> builds.
\<close>

definition hard_constraints ::
  "GroupingConfig \<Rightarrow> FilamentGroupContext \<Rightarrow> nat list \<Rightarrow> int list \<Rightarrow> bool" where
  "hard_constraints config context used_filaments maps \<longleftrightarrow>
     list_all (\<lambda>e. int (filaments_on maps used_filaments (int e)) \<le> max_group_size context ! e)
       [0, 1] \<and>
     list_all (\<lambda>f. list_all (\<lambda>e. maps ! f = int e \<longrightarrow>
                                  f \<notin> physical_unprintables context ! e \<and>
                                  f \<notin> geometric_unprintables context ! e) [0, 1])
       used_filaments \<and>
     length (filter (\<lambda>f. filament_type config f = ''TPU'') used_filaments) \<le> 1 \<and>
     \<not> tpu_misplaced config used_filaments maps"

text \<open>
  Modelled from the spec: the Filament Group Optimizer, which stands for
  \<^verbatim>\<open>FilamentGroup::calc_filament_group\<close>, \<^verbatim>\<open>optimize_group_for_master_extruder\<close> and
  \<^verbatim>\<open>select_best_group_for_ams\<close>; their code is not part of the sources at hand. The spec
  has it "enumerate/search candidate bipartitions of the used-filament set into two
  groups honoring the capacity/exclusion constraints", "evaluate each candidate's
  layer-summed flush cost", pick the best with a tie-break on colours, and signal
  \<^verbatim>\<open>GroupingInfeasible\<close> "if no candidate satisfies the hard constraints". The candidates
  are the maps of all filaments to the extruders 0 and 1; \<open>cost\<close> stands for the flush
  cost with the tie-break, which is computed from flush matrices and colours that the
  sources at hand do not hold; \<open>None\<close> is \<^verbatim>\<open>GroupingInfeasible\<close>.
\<close>

definition filament_group_optimizer ::
  "(nat list list \<Rightarrow> int list \<Rightarrow> rat) \<Rightarrow> GroupingConfig \<Rightarrow> FilamentGroupContext \<Rightarrow> nat list list \<Rightarrow>
   nat list \<Rightarrow> int list option" where
  "filament_group_optimizer cost config context layer_filaments used_filaments =
     (case filter (hard_constraints config context used_filaments)
             (List.n_lists (total_filament_num context) [0, 1]) of
        [] \<Rightarrow> None
      | candidate # candidates \<Rightarrow>
          Some (arg_min_list (cost layer_filaments) (candidate # candidates)))"

section \<open>Custom G-code events\<close>

text \<open>
  \<^verbatim>\<open>ToolOrdering::assign_custom_gcodes\<close>. Of a \<^verbatim>\<open>CustomGCode::Item\<close> the code reads the
  height, the type (it tells colour changes and tool changes from everything else)
  and the one-based extruder. A layer points to its event; the pointer is modelled by
  the index of the event in the list of the plate.
\<close>

datatype gcode_type = ColorChange | PausePrint | ToolChange | Template | Custom

datatype gcode_mode = SingleExtruder | MultiAsSingle | MultiExtruder

record Item =
  item_print_z :: rat
  item_type :: gcode_type
  item_extruder :: int

definition custom_gcode_mode :: "nat \<Rightarrow> nat \<Rightarrow> gcode_mode" where
  "custom_gcode_mode num_filaments object_extruders =
     (if num_filaments = 1 then SingleExtruder
      else if object_extruders = 1 then MultiAsSingle else MultiExtruder)"

text \<open>
  The table \<^verbatim>\<open>extruder_print_above_by_layer\<close>: for every layer the flags of the extruders
  that print on it or above. Setting a flag beyond the vector is undefined behaviour
  (\<open>None\<close>).
\<close>

fun mark_printing :: "extruder_id list \<Rightarrow> bool list \<Rightarrow> bool list option" where
  "mark_printing [] extruder_printing_above = Some extruder_printing_above"
| "mark_printing (i # es) extruder_printing_above =
     (if unat i < length extruder_printing_above
      then mark_printing es (extruder_printing_above[unat i := True])
      else None)"

fun extruder_print_above_by_layer :: "nat \<Rightarrow> LayerTools list \<Rightarrow> bool list list option" where
  "extruder_print_above_by_layer num_filaments [] = Some []"
| "extruder_print_above_by_layer num_filaments (lt # lts) =
     (case extruder_print_above_by_layer num_filaments lts of
        None \<Rightarrow> None
      | Some by_layer \<Rightarrow>
          (case mark_printing (extruders lt)
                  (case by_layer of [] \<Rightarrow> replicate num_filaments False | flags # _ \<Rightarrow> flags) of
             None \<Rightarrow> None
           | Some flags \<Rightarrow> Some (flags # by_layer)))"

text \<open>
  The lambda \<^verbatim>\<open>apply_custom_gcode_to_layer\<close>; \<open>k\<close> is the index of the item. The flags are
  read at \<^verbatim>\<open>unsigned(item.extruder - 1)\<close>, which is beyond the vector for an extruder
  below 1 (\<open>None\<close>).
\<close>

definition apply_custom_gcode_to_layer ::
  "gcode_mode \<Rightarrow> bool \<Rightarrow> bool \<Rightarrow> nat \<Rightarrow> LayerTools \<Rightarrow> bool list \<Rightarrow> nat \<Rightarrow> Item \<Rightarrow> LayerTools option" where
  "apply_custom_gcode_to_layer mode ignore_tool_and_color_changes tool_changes_as_color_changes
       num_filaments lt extruder_printing_above k item =
     (let color_change = (item_type item = ColorChange);
          tool_change = (item_type item = ToolChange);
          pause_or_custom_gcode = (\<not> color_change \<and> \<not> tool_change);
          reads_flag = (\<not> ignore_tool_and_color_changes \<and> color_change \<and> mode \<noteq> SingleExtruder \<and>
                        item_extruder item \<le> int num_filaments)
      in if reads_flag \<and> \<not> (1 \<le> item_extruder item \<and>
                                nat (item_extruder item - 1) < length extruder_printing_above)
         then None
         else
           let apply_color_change =
                 (\<not> ignore_tool_and_color_changes \<and>
                  (if color_change
                   then mode = SingleExtruder \<or>
                        (item_extruder item \<le> int num_filaments \<and>
                         extruder_printing_above ! nat (item_extruder item - 1))
                   else tool_change \<and> tool_changes_as_color_changes))
           in Some (if pause_or_custom_gcode \<or> apply_color_change
                    then lt\<lparr>custom_gcode := Some k\<rparr> else lt))"

text \<open>
  \<^verbatim>\<open>std::upper_bound\<close> with the comparison \<^verbatim>\<open>z < lt.print_z\<close> on the layers, which are
  sorted by height: the index of the first layer above \<open>z\<close>. \<open>chosen_layer\<close> is the layer
  the loop body picks for an event at height \<open>z\<close>.
\<close>

definition upper_bound :: "LayerTools list \<Rightarrow> rat \<Rightarrow> nat" where
  "upper_bound m_layer_tools z = length (takeWhile (\<lambda>lt. \<not> z < print_z lt) m_layer_tools)"

definition chosen_layer :: "LayerTools list \<Rightarrow> rat \<Rightarrow> nat" where
  "chosen_layer m_layer_tools z =
     (let upper_layer_idx = upper_bound m_layer_tools z
      in if upper_layer_idx = 0 then 0
         else if upper_layer_idx = length m_layer_tools then upper_layer_idx - 1
         else
           let lower_layer_idx = upper_layer_idx - 1;
               gap_to_lower = \<bar>z - print_z (m_layer_tools ! lower_layer_idx)\<bar>;
               gap_to_upper = \<bar>z - print_z (m_layer_tools ! upper_layer_idx)\<bar>
           in if gap_to_lower < gap_to_upper then lower_layer_idx else upper_layer_idx)"

text \<open>
  One round of the loop over the events, and the loop, which runs from the last event
  to the first. Tool changes are skipped. Without layers the first branch dereferences
  \<^verbatim>\<open>begin()\<close> of an empty vector (\<open>None\<close>).
\<close>

definition assign_event ::
  "gcode_mode \<Rightarrow> bool \<Rightarrow> bool \<Rightarrow> nat \<Rightarrow> bool list list \<Rightarrow> nat \<times> Item \<Rightarrow> LayerTools list \<Rightarrow>
   LayerTools list option" where
  "assign_event mode ignore_tool_and_color_changes tool_changes_as_color_changes num_filaments
       by_layer event m_layer_tools =
     (if item_type (snd event) = ToolChange then Some m_layer_tools
      else if m_layer_tools = [] then None
      else
        let idx = chosen_layer m_layer_tools (item_print_z (snd event))
        in case apply_custom_gcode_to_layer mode ignore_tool_and_color_changes
                  tool_changes_as_color_changes num_filaments (m_layer_tools ! idx) (by_layer ! idx)
                  (fst event) (snd event) of
             None \<Rightarrow> None
           | Some lt \<Rightarrow> Some (m_layer_tools[idx := lt]))"

fun assign_events ::
  "gcode_mode \<Rightarrow> bool \<Rightarrow> bool \<Rightarrow> nat \<Rightarrow> bool list list \<Rightarrow> (nat \<times> Item) list \<Rightarrow> LayerTools list \<Rightarrow>
   LayerTools list option" where
  "assign_events mode ignore tool_as_color num_filaments by_layer [] m_layer_tools = Some m_layer_tools"
| "assign_events mode ignore tool_as_color num_filaments by_layer (event # events) m_layer_tools =
     (case assign_event mode ignore tool_as_color num_filaments by_layer event m_layer_tools of
        None \<Rightarrow> None
      | Some lts \<Rightarrow> assign_events mode ignore tool_as_color num_filaments by_layer events lts)"

definition assign_custom_gcodes ::
  "nat \<Rightarrow> nat \<Rightarrow> gcode_mode \<Rightarrow> Item list \<Rightarrow> LayerTools list \<Rightarrow> LayerTools list option" where
  "assign_custom_gcodes num_filaments object_extruders model_mode gcodes m_layer_tools =
     (if gcodes = [] then Some m_layer_tools
      else
        let mode = custom_gcode_mode num_filaments object_extruders;
            ignore_tool_and_color_changes = ((mode = MultiExtruder) \<noteq> (model_mode = MultiExtruder));
            tool_changes_as_color_changes = (mode = SingleExtruder \<and> model_mode = MultiAsSingle)
        in case extruder_print_above_by_layer num_filaments m_layer_tools of
             None \<Rightarrow> None
           | Some by_layer \<Rightarrow>
               assign_events mode ignore_tool_and_color_changes tool_changes_as_color_changes
                 num_filaments by_layer (rev (zip [0..<length gcodes] gcodes)) m_layer_tools)"

text \<open>
  For stating the claim: an extruder prints on layer \<open>idx\<close> or above, and an event is
  one that the loop attaches to its layer: it is no tool change, and if it is a colour
  change, then colour changes are not ignored and the printer has a single filament
  or the extruder of the event prints on the chosen layer or above.
\<close>

definition prints_at_or_above :: "LayerTools list \<Rightarrow> nat \<Rightarrow> nat \<Rightarrow> bool" where
  "prints_at_or_above m_layer_tools e idx =
     list_ex (\<lambda>lt. list_ex (\<lambda>i. unat i = e) (extruders lt)) (drop idx m_layer_tools)"

definition event_attached :: "gcode_mode \<Rightarrow> bool \<Rightarrow> nat \<Rightarrow> LayerTools list \<Rightarrow> Item \<Rightarrow> bool" where
  "event_attached mode ignore_tool_and_color_changes num_filaments m_layer_tools item =
     (item_type item \<noteq> ToolChange \<and>
      (item_type item \<noteq> ColorChange \<or>
       (\<not> ignore_tool_and_color_changes \<and>
        (mode = SingleExtruder \<or>
         (item_extruder item \<le> int num_filaments \<and>
          prints_at_or_above m_layer_tools (nat (item_extruder item - 1))
            (chosen_layer m_layer_tools (item_print_z item)))))))"

section \<open>WipingExtrusions: marking extrusions for wiping\<close>

text \<open>
  What \<^verbatim>\<open>WipingExtrusions::mark_wiping_extrusions\<close> reads of the print. ExtrusionEntity.hpp
  is not among the sources: \<open>ExtrusionRole\<close> has the roles that this file names and
  \<open>erOther\<close> for the remaining enumerators. An entity is known by its address (a
  number), its role, the role of its first element (\<^verbatim>\<open>entities.front()->role()\<close>) and its
  volume. Volumes are exact rationals. The filament numbers of a region are the
  one-based values of its configuration, as the \<^verbatim>\<open>unsigned int\<close> they are converted to.
\<close>

datatype ExtrusionRole =
  erInternalInfill | erSupportMaterial | erSupportTransition | erSupportMaterialInterface |
  erMixed | erOther nat

record ExtrusionEntityCollection =
  entity_ptr :: nat
  role :: ExtrusionRole
  front_role :: ExtrusionRole
  total_volume :: rat

record PrintRegion =
  wall_filament_value :: extruder_id
  sparse_infill_filament_value :: extruder_id
  solid_infill_filament_value :: extruder_id

record LayerRegion =
  region :: PrintRegion
  fills :: "ExtrusionEntityCollection list"
  perimeters :: "ExtrusionEntityCollection list"

text \<open>
  A print object with the options of its configuration, the number of its instances,
  and what \<^verbatim>\<open>get_layer_at_printz\<close> and \<^verbatim>\<open>get_support_layer_at_printz\<close> return for the height
  of the layer at hand: the regions of the layer and the support fills, or \<open>None\<close> for
  \<^verbatim>\<open>nullptr\<close>. \<open>object_id\<close> stands for the address of the object and for its \<^verbatim>\<open>id()\<close>.
  \<open>filament_soluble_at\<close> and \<open>filament_is_support_at\<close> stand for \<^verbatim>\<open>filament_soluble.get_at\<close> and
  \<^verbatim>\<open>filament_is_support.get_at\<close> of the print configuration.
\<close>

record PrintObject =
  object_id :: nat
  flush_into_objects :: bool
  flush_into_infill :: bool
  flush_into_support :: bool
  support_filament :: int
  support_interface_filament :: int
  support_interface_not_for_body :: bool
  instances :: nat
  layer_at_printz :: "LayerRegion list option"
  support_layer_at_printz :: "ExtrusionEntityCollection list option"

record WipingPrint =
  filament_soluble_at :: "extruder_id \<Rightarrow> bool"
  filament_is_support_at :: "extruder_id \<Rightarrow> bool"
  is_infill_first :: bool
  objects :: "PrintObject list"

text \<open>
  Functions that the code calls and whose definitions are in headers that are not
  among the sources (ExtrusionEntity.hpp, ToolOrdering.hpp); they are parameters of
  the model.
\<close>

record Declarations =
  is_infill :: "ExtrusionRole \<Rightarrow> bool"
  is_solid_infill :: "ExtrusionRole \<Rightarrow> bool"
  is_entity_overridden :: "WipingExtrusions \<Rightarrow> nat \<Rightarrow> nat \<Rightarrow> nat \<Rightarrow> bool"
  is_support_overridden :: "WipingExtrusions \<Rightarrow> nat \<Rightarrow> bool"
  is_support_interface_overridden :: "WipingExtrusions \<Rightarrow> nat \<Rightarrow> bool"




definition layer_tools_extruder ::
  "Declarations \<Rightarrow> LayerTools \<Rightarrow> ExtrusionEntityCollection \<Rightarrow> PrintRegion \<Rightarrow> extruder_id" where
  "layer_tools_extruder d lt extrusions rg =
     (let extruder =
            (if extruder_override lt = 0
             then (if is_infill d (role extrusions)
                   then (if is_solid_infill d (front_role extrusions)
                         then solid_infill_filament_value rg
                         else sparse_infill_filament_value rg)
                   else wall_filament_value rg)
             else extruder_override lt)
      in if extruder = 0 then 0 else extruder - 1)"

text \<open>\<^verbatim>\<open>WipingExtrusions::is_overriddable\<close>.\<close>

definition is_overriddable ::
  "Declarations \<Rightarrow> WipingPrint \<Rightarrow> LayerTools \<Rightarrow> ExtrusionEntityCollection \<Rightarrow> PrintObject \<Rightarrow>
   PrintRegion \<Rightarrow> bool" where
  "is_overriddable d print_config lt eec obj rg =
     (if filament_soluble_at print_config (layer_tools_extruder d lt eec rg) then False
      else if flush_into_objects obj then True
      else if \<not> flush_into_infill obj \<or> role eec \<noteq> erInternalInfill then False
      else True)"

text \<open>
  \<^verbatim>\<open>set_support_extruder_override\<close> and \<^verbatim>\<open>set_support_interface_extruder_override\<close>:
  \<^verbatim>\<open>emplace\<close> leaves the entry of an object that has one.
\<close>

definition set_support_extruder_override ::
  "nat \<Rightarrow> nat \<Rightarrow> int \<Rightarrow> nat \<Rightarrow> WipingExtrusions \<Rightarrow> WipingExtrusions" where
  "set_support_extruder_override obj copy_id extruder num_of_copies w =
     w\<lparr>something_overridden := True,
       support_map := (case support_map w obj of
                         None \<Rightarrow> (support_map w)(obj \<mapsto> extruder)
                       | Some _ \<Rightarrow> support_map w)\<rparr>"

definition set_support_interface_extruder_override ::
  "nat \<Rightarrow> nat \<Rightarrow> int \<Rightarrow> nat \<Rightarrow> WipingExtrusions \<Rightarrow> WipingExtrusions" where
  "set_support_interface_extruder_override obj copy_id extruder num_of_copies w =
     w\<lparr>something_overridden := True,
       support_intf_map := (case support_intf_map w obj of
                              None \<Rightarrow> (support_intf_map w)(obj \<mapsto> extruder)
                            | Some _ \<Rightarrow> support_intf_map w)\<rparr>"

text \<open>
  The state of \<^verbatim>\<open>mark_wiping_extrusions\<close>: the side table and the local \<^verbatim>\<open>volume_to_wipe\<close>.
  A loop body either returns from the function (\<^verbatim>\<open>return 0.f\<close>) or goes on. \<open>wipe\<close> is
  \<^verbatim>\<open>volume_to_wipe -= v\<close>.
\<close>

record wiping =
  table :: WipingExtrusions
  volume_to_wipe :: rat















text \<open>
  For stating the claim. A copy of an entity is overridden in a table when the vector
  of the entity holds an extruder other than \<open>-1\<close> for it. The candidates of the layer
  are the infills and perimeters of the regions of every object, for every copy; a
  candidate is known by the addresses of its entity and its object and by the copy.
  The volume absorbed between two tables is the volume of the candidates that are
  overridden in the second table and not in the first and that
  \<^verbatim>\<open>is_overriddable\<close> accepts, together with, for every object whose support (support
  interface) has an override in the second table and not in the first, whose
  \<^verbatim>\<open>flush_into_support\<close> is set and whose support (support interface) filament is 0,
  the volume of its support fills of the roles \<^verbatim>\<open>erSupportMaterial\<close> and
  \<^verbatim>\<open>erSupportTransition\<close> (\<^verbatim>\<open>erSupportMaterialInterface\<close>).
\<close>

definition entity_overridden :: "WipingExtrusions \<Rightarrow> nat \<Rightarrow> nat \<Rightarrow> nat \<Rightarrow> bool" where
  "entity_overridden w ent obj copy =
     (case entity_map w (ent, obj) of
        None \<Rightarrow> False
      | Some copies_vector \<Rightarrow> copy < length copies_vector \<and> copies_vector ! copy \<noteq> - 1)"

type_synonym candidate = "ExtrusionEntityCollection \<times> PrintRegion \<times> PrintObject \<times> nat"

definition candidates :: "WipingPrint \<Rightarrow> candidate list" where
  "candidates print =
     concat (map (\<lambda>obj.
       case layer_at_printz obj of
         None \<Rightarrow> []
       | Some this_layer \<Rightarrow>
           concat (map (\<lambda>copy.
             concat (map (\<lambda>layerm.
               map (\<lambda>fill. (fill, region layerm, obj, copy)) (fills layerm @ perimeters layerm))
               this_layer))
             [0..<instances obj]))
       (objects print))"


fun candidate_overridden :: "WipingExtrusions \<Rightarrow> candidate \<Rightarrow> bool" where
  "candidate_overridden w (fill, rg, obj, copy) =
     entity_overridden w (entity_ptr fill) (object_id obj) copy"

fun absorbed_by_candidate ::
  "Declarations \<Rightarrow> WipingPrint \<Rightarrow> LayerTools \<Rightarrow> WipingExtrusions \<Rightarrow> WipingExtrusions \<Rightarrow> candidate \<Rightarrow> rat" where
  "absorbed_by_candidate d print lt w w' (fill, rg, obj, copy) =
     (if candidate_overridden w' (fill, rg, obj, copy) \<and>
         \<not> candidate_overridden w (fill, rg, obj, copy) \<and>
         is_overriddable d print lt fill obj rg
      then total_volume fill else 0)"

definition support_volume :: "(ExtrusionRole \<Rightarrow> bool) \<Rightarrow> PrintObject \<Rightarrow> rat" where
  "support_volume counted obj =
     (case support_layer_at_printz obj of
        None \<Rightarrow> 0
      | Some entities \<Rightarrow> sum_list (map total_volume (filter (\<lambda>ee. counted (role ee)) entities)))"

definition absorbed_by_support :: "WipingExtrusions \<Rightarrow> WipingExtrusions \<Rightarrow> PrintObject \<Rightarrow> rat" where
  "absorbed_by_support w w' obj =
     (if support_map w' (object_id obj) \<noteq> None \<and> support_map w (object_id obj) = None \<and>
         flush_into_support obj \<and> support_filament obj = 0
      then support_volume (\<lambda>r. r = erSupportMaterial \<or> r = erSupportTransition) obj else 0)"

definition absorbed_by_interface :: "WipingExtrusions \<Rightarrow> WipingExtrusions \<Rightarrow> PrintObject \<Rightarrow> rat" where
  "absorbed_by_interface w w' obj =
     (if support_intf_map w' (object_id obj) \<noteq> None \<and> support_intf_map w (object_id obj) = None \<and>
         flush_into_support obj \<and> support_interface_filament obj = 0
      then support_volume (\<lambda>r. r = erSupportMaterialInterface) obj else 0)"

definition absorbed_volume ::
  "Declarations \<Rightarrow> WipingPrint \<Rightarrow> LayerTools \<Rightarrow> WipingExtrusions \<Rightarrow> WipingExtrusions \<Rightarrow> rat" where
  "absorbed_volume d print lt w w' =
     sum_list (map (absorbed_by_candidate d print lt w w') (candidates print)) +
     sum_list (map (absorbed_by_support w w') (objects print)) +
     sum_list (map (absorbed_by_interface w w') (objects print))"


text \<open>
  The invariant of the loops, for a requested volume \<open>v\<close> and the table \<open>w\<close> at the
  call: what is overridden stays overridden, every candidate overridden since the call
  is one that \<^verbatim>\<open>is_overriddable\<close> accepts, the local volume is what is left of \<open>v\<close>
  after the volume absorbed so far, and it is positive while the function runs; where
  the function returns from a loop the absorbed volume has reached \<open>v\<close>.
\<close>

fun candidate_eligible :: "Declarations \<Rightarrow> WipingPrint \<Rightarrow> LayerTools \<Rightarrow> candidate \<Rightarrow> bool" where
  "candidate_eligible d print lt (fill, rg, obj, copy) = is_overriddable d print lt fill obj rg"

definition marks_eligible ::
  "Declarations \<Rightarrow> WipingPrint \<Rightarrow> LayerTools \<Rightarrow> WipingExtrusions \<Rightarrow> WipingExtrusions \<Rightarrow> bool" where
  "marks_eligible d print lt w w' \<longleftrightarrow>
     (\<forall>cand\<in>set (candidates print).
        candidate_overridden w' cand \<and> \<not> candidate_overridden w cand \<longrightarrow>
        candidate_eligible d print lt cand)"

definition keeps ::
  "Declarations \<Rightarrow> WipingPrint \<Rightarrow> LayerTools \<Rightarrow> WipingExtrusions \<Rightarrow> WipingExtrusions \<Rightarrow> bool" where
  "keeps d print lt w w' \<longleftrightarrow>
     (\<forall>cand\<in>set (candidates print). candidate_overridden w cand \<longrightarrow> candidate_overridden w' cand) \<and>
     (\<forall>obj. support_map w obj \<noteq> None \<longrightarrow> support_map w' obj \<noteq> None) \<and>
     (\<forall>obj. support_intf_map w obj \<noteq> None \<longrightarrow> support_intf_map w' obj \<noteq> None) \<and>
     marks_eligible d print lt w w'"


chapter \<open>Lemmas and theorems\<close>

section \<open>Index search\<close>

lemma first_from_ge: "j \<le> first_from P n j"
proof (induction P n j rule: first_from.induct)
  case (1 P n j)
  show ?case
  proof (cases "j < n \<and> \<not> P j")
    case True
    with "1.IH" show ?thesis by (subst first_from.simps) auto
  next
    case False
    then show ?thesis by (subst first_from.simps) auto
  qed
qed

lemma first_from_le: "j \<le> k \<Longrightarrow> P k \<Longrightarrow> first_from P n j \<le> k"
proof (induction P n j rule: first_from.induct)
  case (1 P n j)
  show ?case
  proof (cases "j < n \<and> \<not> P j")
    case True
    with "1.prems" have "Suc j \<le> k" by (metis Suc_leI le_neq_implies_less)
    with "1.IH" True "1.prems" show ?thesis by (subst first_from.simps) auto
  next
    case False
    with "1.prems" show ?thesis by (subst first_from.simps) auto
  qed
qed

lemma first_from_holds: "first_from P n j < n \<Longrightarrow> P (first_from P n j)"
proof (induction P n j rule: first_from.induct)
  case (1 P n j)
  show ?case
  proof (cases "j < n \<and> \<not> P j")
    case True
    then have eq: "first_from P n j = first_from P n (Suc j)"
      by (subst first_from.simps) simp
    with "1.IH"[OF True] "1.prems" show ?thesis by simp
  next
    case False
    then have eq: "first_from P n j = j" by (subst first_from.simps) auto
    with False "1.prems" show ?thesis by simp
  qed
qed

section \<open>Properties of initialize\_layers\<close>

lemma sort_remove_duplicates_set: "set (sort_remove_duplicates xs) = set xs"
  by (simp add: sort_remove_duplicates_def)

lemma sort_remove_duplicates_sorted: "sorted (sort_remove_duplicates xs)"
  by (simp add: sort_remove_duplicates_def sorted_remdups_adj)

lemma sorted_remdups_adj_distinct: "sorted xs \<Longrightarrow> distinct (remdups_adj xs)"
  by (induction xs rule: remdups_adj.induct) (auto split: if_splits)

lemma sort_remove_duplicates_distinct: "distinct (sort_remove_duplicates xs)"
  by (simp add: sort_remove_duplicates_def sorted_remdups_adj_distinct)

lemma sort_remove_duplicates_eq:
  "sort_remove_duplicates xs = sorted_list_of_set (set xs)"
  by (rule sorted_distinct_set_unique)
     (simp_all add: sort_remove_duplicates_sorted sort_remove_duplicates_distinct
        sort_remove_duplicates_set)


lemma merge_heights_groups:
  "merge_heights eps zs = map (\<lambda>g. 1 / 2 * (hd g + last g)) (height_groups eps zs)"
  by (induction eps zs rule: merge_heights.induct) simp_all

lemma concat_height_groups: "concat (height_groups eps zs) = zs"
  by (induction eps zs rule: height_groups.induct) simp_all

lemma height_groups_bounds:
  "0 \<le> eps \<Longrightarrow> g \<in> set (height_groups eps zs) \<Longrightarrow>
     g \<noteq> [] \<and> (\<forall>z\<in>set g. z \<le> hd g + eps)"
proof (induction eps zs rule: height_groups.induct)
  case (1 eps)
  then show ?case by simp
next
  case (2 eps z zs)
  let ?P = "\<lambda>y. y \<le> z + eps"
  from "2.prems"(2) consider (first) "g = z # takeWhile ?P zs"
    | (later) "g \<in> set (height_groups eps (dropWhile ?P zs))" by auto
  then show ?case
  proof cases
    case first
    have "\<forall>y\<in>set (takeWhile ?P zs). y \<le> z + eps"
      by (metis (mono_tags, lifting) set_takeWhileD)
    with first "2.prems"(1) show ?thesis by simp
  next
    case later
    with "2.IH" "2.prems"(1) show ?thesis by blast
  qed
qed

lemma last_group_bounds:
  assumes "sorted_wrt (<) ((z::rat) # zs)"
  shows "z \<le> last (z # takeWhile P zs)"
    and "\<forall>y\<in>set (dropWhile P zs). last (z # takeWhile P zs) < y"
proof -
  let ?tk = "takeWhile P zs" and ?dr = "dropWhile P zs"
  have zlt: "\<forall>y\<in>set zs. z < y" using assms by simp
  have tk_sub: "set ?tk \<subseteq> set zs" by (metis set_takeWhileD subsetI)
  have dr_sub: "set ?dr \<subseteq> set zs" by (metis set_dropWhileD subsetI)
  have "sorted_wrt (<) (?tk @ ?dr)" using assms by simp
  then have cross: "\<forall>x\<in>set ?tk. \<forall>y\<in>set ?dr. x < y"
    unfolding sorted_wrt_append by blast
  show "z \<le> last (z # ?tk)"
  proof (cases "?tk = []")
    case True
    then show ?thesis by simp
  next
    case False
    then have "last ?tk \<in> set zs" using tk_sub last_in_set by blast
    with zlt False show ?thesis by (simp add: less_imp_le)
  qed
  show "\<forall>y\<in>set ?dr. last (z # ?tk) < y"
  proof (cases "?tk = []")
    case True
    with zlt dr_sub show ?thesis by auto
  next
    case False
    then have "last ?tk \<in> set ?tk" by (rule last_in_set)
    with cross False show ?thesis by simp
  qed
qed

lemma sorted_wrt_dropWhile: "sorted_wrt R zs \<Longrightarrow> sorted_wrt R (dropWhile P zs)"
  by (induction zs) auto

lemma merge_heights_lower:
  "sorted_wrt (<) zs \<Longrightarrow> m \<in> set (merge_heights eps zs) \<Longrightarrow> \<exists>a\<in>set zs. a \<le> m"
proof (induction eps zs arbitrary: m rule: merge_heights.induct)
  case (1 eps)
  then show ?case by simp
next
  case (2 eps z zs)
  let ?P = "\<lambda>y. y \<le> z + eps"
  have zl: "z \<le> last (z # takeWhile ?P zs)"
    using last_group_bounds(1)[OF "2.prems"(1)] .
  from "2.prems"(2) consider (hd) "m = 1 / 2 * (z + last (z # takeWhile ?P zs))"
    | (tl) "m \<in> set (merge_heights eps (dropWhile ?P zs))" by auto
  then show ?case
  proof cases
    case hd
    with zl have "z \<le> m" by simp
    then show ?thesis by auto
  next
    case tl
    have "sorted_wrt (<) (dropWhile ?P zs)"
      using "2.prems"(1) by (simp add: sorted_wrt_dropWhile)
    from "2.IH"[OF this tl] obtain a where "a \<in> set (dropWhile ?P zs)" "a \<le> m" by blast
    then show ?thesis by (auto dest: set_dropWhileD)
  qed
qed

lemma merge_heights_strict:
  "sorted_wrt (<) zs \<Longrightarrow> sorted_wrt (<) (merge_heights eps zs)"
proof (induction eps zs rule: merge_heights.induct)
  case (1 eps)
  then show ?case by simp
next
  case (2 eps z zs)
  let ?P = "\<lambda>y. y \<le> z + eps"
  let ?l = "last (z # takeWhile ?P zs)"
  have zl: "z \<le> ?l" using last_group_bounds(1)[OF "2.prems"] .
  have above: "\<forall>y\<in>set (dropWhile ?P zs). ?l < y"
    using last_group_bounds(2)[OF "2.prems"] .
  have srt: "sorted_wrt (<) (dropWhile ?P zs)"
    using "2.prems" by (simp add: sorted_wrt_dropWhile)
  have "1 / 2 * (z + ?l) < m" if "m \<in> set (merge_heights eps (dropWhile ?P zs))" for m
  proof -
    from merge_heights_lower[OF srt that] obtain a
      where "a \<in> set (dropWhile ?P zs)" "a \<le> m" by blast
    with above have "?l < m" by force
    with zl show ?thesis by simp
  qed
  with "2.IH"[OF srt] show ?case by simp
qed

lemma height_groups_gap:
  "successively (\<lambda>g g'. hd g + eps < hd g') (height_groups eps zs)"
proof (induction eps zs rule: height_groups.induct)
  case (1 eps)
  then show ?case by simp
next
  case (2 eps z zs)
  let ?P = "\<lambda>y. y \<le> z + eps"
  show ?case
  proof (cases "dropWhile ?P zs")
    case Nil
    show ?thesis unfolding height_groups.simps Nil by simp
  next
    case (Cons y ys)
    then have "\<not> ?P y" by (metis hd_dropWhile list.sel(1) list.distinct(1))
    with Cons "2.IH" show ?thesis by (simp add: successively_Cons)
  qed
qed

text \<open>
  Claim C8, as amended. \<^verbatim>\<open>initialize_layers\<close> sorts the heights and removes duplicates,
  then groups them greedily from the bottom: a group starts at the lowest remaining
  height and holds every height at most \<open>eps\<close> above that first one; the next group
  starts more than \<open>eps\<close> above the start of the one before. Every group gives one
  fresh record whose \<open>print_z\<close> is the mean of the lowest and the highest height of
  the group (not of all its heights). The records are strictly increasing in
  \<open>print_z\<close>, and the result depends only on the set of input heights.
\<close>

theorem initialize_layers_merges_heights:
  "0 \<le> eps \<Longrightarrow>
     (let gs = height_groups eps (sort_remove_duplicates zs);
          out = initialize_layers eps zs []
      in concat gs = sorted_list_of_set (set zs) \<and>
         (\<forall>g\<in>set gs. g \<noteq> [] \<and> (\<forall>z\<in>set g. z \<le> hd g + eps)) \<and>
         successively (\<lambda>g g'. hd g + eps < hd g') gs \<and>
         out = map (\<lambda>g. new_LayerTools (1 / 2 * (hd g + last g))) gs \<and>
         sorted_wrt (<) (map print_z out) \<and>
         (\<forall>zs'. set zs' = set zs \<longrightarrow> initialize_layers eps zs' [] = out))"
proof -
  assume eps: "0 \<le> eps"
  let ?sz = "sort_remove_duplicates zs"
  let ?gs = "height_groups eps ?sz"
  let ?out = "initialize_layers eps zs []"
  have c1: "concat ?gs = sorted_list_of_set (set zs)"
    by (simp add: concat_height_groups sort_remove_duplicates_eq)
  have c2: "\<forall>g\<in>set ?gs. g \<noteq> [] \<and> (\<forall>z\<in>set g. z \<le> hd g + eps)"
    using height_groups_bounds[OF eps] by blast
  have c3: "successively (\<lambda>g g'. hd g + eps < hd g') ?gs"
    by (rule height_groups_gap)
  have c4: "?out = map (\<lambda>g. new_LayerTools (1 / 2 * (hd g + last g))) ?gs"
    by (simp add: initialize_layers_def merge_heights_groups comp_def)
  have pz: "map print_z ?out = merge_heights eps ?sz"
    by (simp add: initialize_layers_def comp_def new_LayerTools_def)
  have "sorted_wrt (<) ?sz"
    by (simp add: strict_sorted_iff sort_remove_duplicates_sorted sort_remove_duplicates_distinct)
  then have c5: "sorted_wrt (<) (map print_z ?out)"
    unfolding pz by (rule merge_heights_strict)
  have c6: "\<forall>zs'. set zs' = set zs \<longrightarrow> initialize_layers eps zs' [] = ?out"
    by (simp add: initialize_layers_def sort_remove_duplicates_eq)
  from c1 c2 c3 c4 c5 c6 show ?thesis unfolding Let_def by blast
qed

theorem initialize_layers_merges_heights_witness:
  "(0::rat) \<le> 1 / 10000 \<and>
   initialize_layers (1 / 10000) [2 / 10, 0, 1 / 100000, 1 / 10000, 2 / 10] [] =
     [new_LayerTools (1 / 20000), new_LayerTools (2 / 10)] \<and>
   sorted_wrt (<) (map print_z (initialize_layers (1 / 10000) [2 / 10, 0, 1 / 100000, 1 / 10000, 2 / 10] []))"
proof -
  have h: "(0::rat) \<le> 1 / 10000" by simp
  have ev: "initialize_layers (1 / 10000) [2 / 10, 0, 1 / 100000, 1 / 10000, 2 / 10] [] =
     [new_LayerTools (1 / 20000), new_LayerTools (2 / 10)]"
    by (simp add: initialize_layers_def sort_remove_duplicates_def)
  from initialize_layers_merges_heights [OF h, of "[2 / 10, 0, 1 / 100000, 1 / 10000, 2 / 10]"]
  have "sorted_wrt (<) (map print_z (initialize_layers (1 / 10000) [2 / 10, 0, 1 / 100000, 1 / 10000, 2 / 10] []))"
    unfolding Let_def by blast
  with h ev show ?thesis by blast
qed

text \<open>
  Claim C8 as stated fails: three heights within \<open>eps\<close> of the lowest one are merged into
  one record whose \<open>print_z\<close> is the mean of the lowest and the highest, not the average
  of the three; and two heights less than \<open>eps\<close> apart land in different records when
  the lower one was already taken by the group below.
\<close>

theorem initialize_layers_average_counterexample:
  "map print_z (initialize_layers (1 / 10000) [0, 1 / 100000, 1 / 10000] []) = [1 / 20000] \<and>
   average [0, 1 / 100000, 1 / 10000] \<noteq> 1 / 20000 \<and>
   \<bar>16 / 100000 - 8 / 100000\<bar> \<le> (1 / 10000 :: rat) \<and>
   map print_z (initialize_layers (1 / 10000) [0, 8 / 100000, 16 / 100000] []) = [4 / 100000, 16 / 100000]"
  by (simp add: initialize_layers_def sort_remove_duplicates_def new_LayerTools_def average_def)

section \<open>Properties of fill\_wipe\_tower\_partitions\<close>

lemma uint_ucast_32_64: "uint (ucast (w :: 32 word) :: 64 word) = uint w"
  by (rule uint_up_ucast) (simp add: is_up)

lemma ucast_32_64_neq_minus1: "(ucast (w :: 32 word) :: 64 word) \<noteq> - 1"
proof
  assume "(ucast w :: 64 word) = - 1"
  then have "uint (ucast w :: 64 word) = uint (- 1 :: 64 word)" by simp
  moreover have "uint w < 2 ^ 32" using uint_bounded[of w] by simp
  ultimately show False by (simp add: uint_ucast_32_64 uint_word_ariths)
qed

lemma ucast_32_64_inj: "(ucast (v :: 32 word) :: 64 word) = ucast (w :: 32 word) \<longleftrightarrow> v = w"
proof
  assume "(ucast v :: 64 word) = ucast w"
  then have "uint (ucast v :: 64 word) = uint (ucast w :: 64 word)" by simp
  then show "v = w" by (simp add: uint_ucast_32_64 word_uint_eq_iff)
qed simp



lemma last_extruder_is_test:
  "last_extruder_is w p \<Longrightarrow> (w = - 1 \<or> w = ucast e) = (p = None \<or> p = Some e)"
  by (cases p) (auto simp: last_extruder_is_def ucast_32_64_neq_minus1 ucast_32_64_inj)

lemma previous_last_extruder_0: "previous_last_extruder lts 0 = None"
  by (simp add: previous_last_extruder_def)

lemma previous_last_extruder_Suc:
  "previous_last_extruder (lt # lts) (Suc i) =
     (case previous_last_extruder lts i of
        Some e \<Rightarrow> Some e
      | None \<Rightarrow> if extruders lt = [] then None else Some (last (extruders lt)))"
  by (simp add: previous_last_extruder_def split: list.splits)

lemma length_count_tool_changes: "length (count_tool_changes w lts) = length lts"
  by (induction lts arbitrary: w) (simp_all add: Let_def)

lemma count_tool_changes_other:
  "map extruders (count_tool_changes w lts) = map extruders lts"
  by (induction lts arbitrary: w) (simp_all add: Let_def)

lemma count_tool_changes_nth:
  "last_extruder_is w p \<Longrightarrow> i < length lts \<Longrightarrow>
   wipe_tower_partitions (count_tool_changes w lts ! i) =
     (let es = extruders (lts ! i);
          pr = (case previous_last_extruder lts i of None \<Rightarrow> p | Some e \<Rightarrow> Some e)
      in if es = [] then 0
         else if pr = None \<or> pr = Some (hd es) then length es - 1 else length es)"
proof (induction lts arbitrary: w p i)
  case Nil
  then show ?case by simp
next
  case (Cons lt lts)
  show ?case
  proof (cases i)
    case 0
    with Cons.prems show ?thesis
      by (simp add: Let_def previous_last_extruder_0 last_extruder_is_test)
  next
    case (Suc k)
    with Cons.prems have k: "k < length lts" by simp
    show ?thesis
    proof (cases "extruders lt = []")
      case True
      with Suc Cons.IH[OF Cons.prems(1) k] show ?thesis
        by (auto simp: Let_def previous_last_extruder_Suc split: option.splits)
    next
      case False
      have "last_extruder_is (ucast (last (extruders lt))) (Some (last (extruders lt)))"
        by (simp add: last_extruder_is_def)
      from Cons.IH[OF this k] Suc False show ?thesis
        by (auto simp: Let_def previous_last_extruder_Suc split: option.splits)
    qed
  qed
qed

lemma count_tool_changes_own:
  "i < length lts \<Longrightarrow>
   wipe_tower_partitions (count_tool_changes (- 1) lts ! i) = own_tool_changes lts i"
  using count_tool_changes_nth[of "- 1" None i lts]
  by (simp add: last_extruder_is_def own_tool_changes_def Let_def split: option.splits)


lemma length_propagate_partitions: "length (propagate_partitions lts) = length lts"
  by (induction lts rule: propagate_partitions.induct) (simp_all add: Let_def)

lemma propagate_partitions_Nil_iff: "propagate_partitions lts = [] \<longleftrightarrow> lts = []"
  by (induction lts rule: propagate_partitions.induct) (simp_all add: Let_def)

lemma propagate_partitions_nth:
  "i < length lts \<Longrightarrow>
   wipe_tower_partitions (propagate_partitions lts ! i) =
     (if Suc i < length lts
      then max (wipe_tower_partitions (propagate_partitions lts ! Suc i))
               (wipe_tower_partitions (lts ! i))
      else wipe_tower_partitions (lts ! i))"
proof (induction lts arbitrary: i rule: propagate_partitions.induct)
  case 1
  then show ?case by simp
next
  case (2 lt)
  then show ?case by simp
next
  case (3 lt lt' lts)
  let ?above = "propagate_partitions (lt' # lts)"
  have ne: "?above \<noteq> []" by (simp add: propagate_partitions_Nil_iff)
  show ?case
  proof (cases i)
    case 0
    with ne show ?thesis by (simp add: Let_def hd_conv_nth)
  next
    case (Suc k)
    with "3.prems" have "k < length (lt' # lts)" by simp
    from "3.IH"[OF this] Suc show ?thesis by (simp add: Let_def)
  qed
qed

lemma propagate_partitions_other:
  "map extruders (propagate_partitions lts) = map extruders lts"
  by (induction lts rule: propagate_partitions.induct) (simp_all add: Let_def)

lemma count_and_propagate_nth:
  assumes "i < length lts"
  shows "wipe_tower_partitions (count_and_propagate lts ! i) =
     (if Suc i < length lts
      then max (wipe_tower_partitions (count_and_propagate lts ! Suc i)) (own_tool_changes lts i)
      else own_tool_changes lts i)"
  using assms propagate_partitions_nth[of i "count_tool_changes (- 1) lts"]
  by (simp add: count_and_propagate_def length_count_tool_changes count_tool_changes_own)


lemma count_and_propagate_mono:
  "non_increasing (map wipe_tower_partitions (count_and_propagate lts))"
  unfolding non_increasing_def
proof (intro allI impI)
  fix i assume "Suc i < length (map wipe_tower_partitions (count_and_propagate lts))"
  then have i: "Suc i < length lts"
    by (simp add: count_and_propagate_def length_propagate_partitions length_count_tool_changes)
  then have "i < length lts" by simp
  from count_and_propagate_nth[OF this] i
  show "map wipe_tower_partitions (count_and_propagate lts) ! Suc i
          \<le> map wipe_tower_partitions (count_and_propagate lts) ! i"
    by (simp add: count_and_propagate_def length_propagate_partitions length_count_tool_changes)
qed


lemma map_partitions_mark_wipe_tower:
  "map wipe_tower_partitions (map (mark_wipe_tower smooth obz eps) lts) =
     map wipe_tower_partitions lts"
  by (simp add: mark_wipe_tower_def comp_def)

lemma map_partitions_set_wipe_tower:
  "map wipe_tower_partitions (lts[j := (lts ! j)\<lparr>has_wipe_tower := b\<rparr>]) =
     map wipe_tower_partitions lts"
proof (cases "j < length lts")
  case True
  then show ?thesis by (simp add: map_update list_update_same_conv)
next
  case False
  then show ?thesis by (simp add: not_less list_update_beyond)
qed

lemma map_partitions_mark_far_layers:
  "map wipe_tower_partitions (mark_far_layers mlh eps n lts j last_z) =
     map wipe_tower_partitions lts"
proof (induction mlh eps n lts j last_z rule: mark_far_layers.induct)
  case (1 mlh eps n lts j last_z)
  show ?case
  proof (cases "j < n - 1 \<and> \<not> has_wipe_tower (lts ! j)")
    case False
    then show ?thesis by (subst mark_far_layers.simps) auto
  next
    case True
    show ?thesis
    proof (cases "print_z (lts ! Suc j) - last_z > mlh + eps")
      case far: True
      from "1.IH"(1)[OF True far] True far show ?thesis
        by (subst mark_far_layers.simps) (auto simp: map_partitions_set_wipe_tower)
    next
      case near: False
      from "1.IH"(2)[OF True near] True near show ?thesis
        by (subst mark_far_layers.simps) auto
    qed
  qed
qed

lemma map_partitions_mark_missing:
  "map wipe_tower_partitions (mark_missing_wipe_tower mlh eps n lts i) =
     map wipe_tower_partitions lts"
proof (induction mlh eps n lts i rule: mark_missing_wipe_tower.induct)
  case (1 mlh eps n lts i)
  show ?case
  proof (cases "Suc i < n \<and> extruders (lts ! i) \<noteq> [] \<and> extruders (lts ! Suc i) \<noteq> []")
    case False
    then show ?thesis by (subst mark_missing_wipe_tower.simps) (auto simp: Let_def)
  next
    case True
    define lts1 where "lts1 =
      (if \<not> has_wipe_tower (lts ! Suc i) \<and>
          (hd (extruders (lts ! Suc i)) \<noteq> last (extruders (lts ! i))
           \<or> length (extruders (lts ! Suc i)) > 1)
       then lts[Suc i := (lts ! Suc i)\<lparr>has_wipe_tower := True\<rparr>] else lts)"
    define lts2 where "lts2 = mark_far_layers mlh eps n lts1 (Suc (Suc i)) (print_z (lts ! Suc i))"
    have m1: "map wipe_tower_partitions lts1 = map wipe_tower_partitions lts"
      by (simp add: lts1_def map_partitions_set_wipe_tower)
    have m2: "map wipe_tower_partitions lts2 = map wipe_tower_partitions lts"
      by (simp add: lts2_def map_partitions_mark_far_layers m1)
    have step: "mark_missing_wipe_tower mlh eps n lts i = mark_missing_wipe_tower mlh eps n lts2 (Suc i)"
      using True by (subst mark_missing_wipe_tower.simps) (simp add: Let_def lts1_def lts2_def)
    have "map wipe_tower_partitions (mark_missing_wipe_tower mlh eps n lts2 (Suc i)) =
            map wipe_tower_partitions lts2"
      using True by (intro "1.IH"[where x = "lts ! i" and xa = "lts ! Suc i"])
        (auto simp: lts1_def lts2_def)
    with step m2 show ?thesis by simp
  qed
qed

lemma map_partitions_wipe_tower_heights:
  "map wipe_tower_partitions (wipe_tower_heights z lts) = map wipe_tower_partitions lts"
  by (induction lts arbitrary: z) simp_all


lemma non_increasing_sorted_wrt: "non_increasing ws \<longleftrightarrow> sorted_wrt (\<lambda>a b. b \<le> a) ws"
  unfolding non_increasing_def
  by (subst sorted_wrt_iff_nth_Suc_transp) (auto simp: transp_def)

lemma non_increasing_duplicate:
  assumes "non_increasing ws" "j < length ws"
  shows "non_increasing (take j ws @ ws ! j # drop j ws)"
proof -
  have ws: "ws = take j ws @ ws ! j # drop (Suc j) ws"
    using assms(2) by (rule id_take_nth_drop)
  have dr: "drop j ws = ws ! j # drop (Suc j) ws"
    using assms(2) by (simp add: Cons_nth_drop_Suc)
  from assms(1) have "sorted_wrt (\<lambda>a b. b \<le> a) (take j ws @ ws ! j # drop (Suc j) ws)"
    unfolding non_increasing_sorted_wrt using ws by simp
  then have "sorted_wrt (\<lambda>a b. b \<le> a) (take j ws @ ws ! j # ws ! j # drop (Suc j) ws)"
    by (auto simp: sorted_wrt_append)
  then show ?thesis unfolding non_increasing_sorted_wrt dr .
qed

lemma insert_raft_gap_layer_cases:
  assumes "n = length lts"
    and "i = first_from (\<lambda>i. print_z (lts ! i) < obz + eps \<and>
                               print_z (lts ! Suc i) \<ge> obz + eps) (n - 1) 0"
    and "j1 = first_from (\<lambda>j. has_wipe_tower (lts ! j)) n (Suc i)"
    and "lt_new = new_LayerTools (1 / 2 * (print_z (lts ! i) + print_z (lts ! j1)))"
    and "j2 = first_from (\<lambda>j. \<not> print_z (lts ! j) < print_z lt_new - eps) n (Suc i)"
  shows "insert_raft_gap_layer obz mlh eps lts =
     (if \<not> i < n - 1 then Some lts
      else if \<not> j1 < n then Some lts
      else if \<not> print_z (lts ! j1) - print_z (lts ! i) > mlh + eps then Some lts
      else if \<not> j2 < n then None
      else if \<bar>print_z (lts ! j2) - print_z lt_new\<bar> < eps
      then Some (lts[j2 := (lts ! j2)\<lparr>has_wipe_tower := True\<rparr>])
      else if extruders (lts ! j2) = [] then None
      else Some (take j2 lts
                 @ lt_new\<lparr>has_wipe_tower := True,
                      extruders := [hd (extruders (lts ! j2))],
                      wipe_tower_partitions := wipe_tower_partitions (lts ! j2)\<rparr>
                 # drop j2 lts))"
  unfolding insert_raft_gap_layer_def Let_def assms by (rule refl)

lemma insert_raft_gap_layer_partitions:
  assumes "insert_raft_gap_layer obz mlh eps lts = Some out"
  shows "map wipe_tower_partitions out = map wipe_tower_partitions lts \<or>
         (\<exists>j<length lts. map wipe_tower_partitions out =
            take j (map wipe_tower_partitions lts)
              @ map wipe_tower_partitions lts ! j # drop j (map wipe_tower_partitions lts))"
proof -
  define n where "n = length lts"
  define i where "i = first_from (\<lambda>i. print_z (lts ! i) < obz + eps \<and>
                               print_z (lts ! Suc i) \<ge> obz + eps) (n - 1) 0"
  define j1 where "j1 = first_from (\<lambda>j. has_wipe_tower (lts ! j)) n (Suc i)"
  define lt_new where "lt_new = new_LayerTools (1 / 2 * (print_z (lts ! i) + print_z (lts ! j1)))"
  define j2 where "j2 = first_from (\<lambda>j. \<not> print_z (lts ! j) < print_z lt_new - eps) n (Suc i)"
  note eq = insert_raft_gap_layer_cases[OF n_def i_def j1_def lt_new_def j2_def, of mlh]
  consider (same) "out = lts"
    | (mark) "out = lts[j2 := (lts ! j2)\<lparr>has_wipe_tower := True\<rparr>]"
    | (ins) "j2 < n" "out = take j2 lts
                 @ lt_new\<lparr>has_wipe_tower := True,
                      extruders := [hd (extruders (lts ! j2))],
                      wipe_tower_partitions := wipe_tower_partitions (lts ! j2)\<rparr>
                 # drop j2 lts"
    using assms unfolding eq by (auto split: if_splits)
  then show ?thesis
  proof cases
    case same
    then show ?thesis by simp
  next
    case mark
    then show ?thesis by (simp add: map_partitions_set_wipe_tower)
  next
    case ins
    then have "map wipe_tower_partitions out =
            take j2 (map wipe_tower_partitions lts)
              @ map wipe_tower_partitions lts ! j2 # drop j2 (map wipe_tower_partitions lts)"
      by (simp add: take_map drop_map n_def)
    with ins(1) show ?thesis unfolding n_def by blast
  qed
qed

lemma insert_raft_gap_layer_total:
  assumes "0 \<le> eps" "0 \<le> mlh" "\<forall>lt\<in>set lts. extruders lt \<noteq> []"
  shows "insert_raft_gap_layer obz mlh eps lts \<noteq> None"
proof -
  define n where "n = length lts"
  define i where "i = first_from (\<lambda>i. print_z (lts ! i) < obz + eps \<and>
                               print_z (lts ! Suc i) \<ge> obz + eps) (n - 1) 0"
  define j1 where "j1 = first_from (\<lambda>j. has_wipe_tower (lts ! j)) n (Suc i)"
  define lt_new where "lt_new = new_LayerTools (1 / 2 * (print_z (lts ! i) + print_z (lts ! j1)))"
  define j2 where "j2 = first_from (\<lambda>j. \<not> print_z (lts ! j) < print_z lt_new - eps) n (Suc i)"
  note eq = insert_raft_gap_layer_cases[OF n_def i_def j1_def lt_new_def j2_def, of mlh]
  have j2_lt: "j2 < n" if "j1 < n" "print_z (lts ! j1) - print_z (lts ! i) > mlh + eps"
  proof -
    have "Suc i \<le> j1" unfolding j1_def by (rule first_from_ge)
    moreover have "\<not> print_z (lts ! j1) < print_z lt_new - eps"
      using that(2) assms(1,2) by (simp add: lt_new_def new_LayerTools_def field_simps)
    ultimately have "j2 \<le> j1" unfolding j2_def by (rule first_from_le)
    with that(1) show ?thesis by simp
  qed
  have ne: "extruders (lts ! j2) \<noteq> []" if "j2 < n"
    using that assms(3) by (simp add: n_def)
  show ?thesis unfolding eq using j2_lt ne by auto
qed


lemma fill_wipe_tower_partitions_shape:
  assumes "fill_wipe_tower_partitions smooth obz mlh eps lts = Some out"
  shows "map wipe_tower_partitions out = map wipe_tower_partitions (count_and_propagate lts) \<or>
         (\<exists>j<length lts. map wipe_tower_partitions out =
            take j (map wipe_tower_partitions (count_and_propagate lts))
              @ map wipe_tower_partitions (count_and_propagate lts) ! j
              # drop j (map wipe_tower_partitions (count_and_propagate lts)))"
proof (cases "lts = []")
  case True
  with assms show ?thesis
    by (auto simp: fill_wipe_tower_partitions_def count_and_propagate_def)
next
  case False
  let ?l3 = "map (mark_wipe_tower smooth obz eps) (count_and_propagate lts)"
  from assms False obtain l4 where
    l4: "insert_raft_gap_layer obz mlh eps ?l3 = Some l4"
    and out: "out = wipe_tower_heights 0 (mark_missing_wipe_tower mlh eps (length l4) l4 0)"
    by (auto simp: fill_wipe_tower_partitions_def split: option.splits)
  have len: "length ?l3 = length lts"
    by (simp add: count_and_propagate_def length_propagate_partitions length_count_tool_changes)
  have "map wipe_tower_partitions out = map wipe_tower_partitions l4"
    by (simp add: out map_partitions_wipe_tower_heights map_partitions_mark_missing)
  with insert_raft_gap_layer_partitions[OF l4] len show ?thesis
    by (simp only: map_partitions_mark_wipe_tower)
qed

text \<open>
  Claim C1. After the first two loops of \<^verbatim>\<open>fill_wipe_tower_partitions\<close> every layer's
  \<open>wipe_tower_partitions\<close> is the maximum of the layer's own number of tool changes and
  the value of the layer immediately above it, the top layer keeping its own number.
  The own number is the extruder count, less one when no layer printed before or the
  last extruder of the last printing layer below is the layer's first extruder. The
  values are therefore non-increasing going up, and they stay so in the result of the
  whole function: the later loops leave them alone, except that the raft test may
  insert one layer, which copies the value of the layer above it. The function
  returns whenever no layer has an empty extruder list and the maximum layer height
  and \<open>eps\<close> are not negative.
\<close>

theorem fill_wipe_tower_partitions_monotone:
  "(let ws = map wipe_tower_partitions (count_and_propagate m_layer_tools);
        n = length m_layer_tools
    in length ws = n \<and>
       (\<forall>i<n. ws ! i =
          (if Suc i < n then max (ws ! Suc i) (own_tool_changes m_layer_tools i)
           else own_tool_changes m_layer_tools i)) \<and>
       non_increasing ws \<and>
       (\<forall>out. fill_wipe_tower_partitions smooth object_bottom_z max_layer_height eps m_layer_tools
                = Some out \<longrightarrow>
          non_increasing (map wipe_tower_partitions out) \<and>
          (map wipe_tower_partitions out = ws \<or>
           (\<exists>j<n. map wipe_tower_partitions out = take j ws @ ws ! j # drop j ws))) \<and>
       (0 \<le> eps \<and> 0 \<le> max_layer_height \<and> (\<forall>lt\<in>set m_layer_tools. extruders lt \<noteq> []) \<longrightarrow>
          fill_wipe_tower_partitions smooth object_bottom_z max_layer_height eps m_layer_tools
            \<noteq> None))"
proof -
  let ?ws = "map wipe_tower_partitions (count_and_propagate m_layer_tools)"
  let ?n = "length m_layer_tools"
  have len: "length ?ws = ?n"
    by (simp add: count_and_propagate_def length_propagate_partitions length_count_tool_changes)
  have own: "\<forall>i<?n. ?ws ! i =
          (if Suc i < ?n then max (?ws ! Suc i) (own_tool_changes m_layer_tools i)
           else own_tool_changes m_layer_tools i)"
  proof (intro allI impI)
    fix i assume i: "i < ?n"
    from count_and_propagate_nth[OF i] i len
    show "?ws ! i = (if Suc i < ?n then max (?ws ! Suc i) (own_tool_changes m_layer_tools i)
           else own_tool_changes m_layer_tools i)"
      by (simp add: count_and_propagate_def length_propagate_partitions length_count_tool_changes)
  qed
  have mono: "non_increasing ?ws" by (rule count_and_propagate_mono)
  have outs: "non_increasing (map wipe_tower_partitions out) \<and>
          (map wipe_tower_partitions out = ?ws \<or>
           (\<exists>j<?n. map wipe_tower_partitions out = take j ?ws @ ?ws ! j # drop j ?ws))"
    if "fill_wipe_tower_partitions smooth object_bottom_z max_layer_height eps m_layer_tools
          = Some out" for out
  proof -
    from fill_wipe_tower_partitions_shape[OF that]
    consider (same) "map wipe_tower_partitions out = ?ws"
      | (dup) j where "j < ?n" "map wipe_tower_partitions out = take j ?ws @ ?ws ! j # drop j ?ws"
      by blast
    then show ?thesis
    proof cases
      case same
      with mono show ?thesis by simp
    next
      case dup
      from dup(1) len have "j < length ?ws" by simp
      from non_increasing_duplicate[OF mono this] dup show ?thesis by auto
    qed
  qed
  have total: "fill_wipe_tower_partitions smooth object_bottom_z max_layer_height eps m_layer_tools
            \<noteq> None"
    if "0 \<le> eps" "0 \<le> max_layer_height" "\<forall>lt\<in>set m_layer_tools. extruders lt \<noteq> []"
  proof -
    let ?l3 = "map (mark_wipe_tower smooth object_bottom_z eps) (count_and_propagate m_layer_tools)"
    have "map extruders ?l3 = map extruders m_layer_tools"
      by (simp add: count_and_propagate_def propagate_partitions_other
          count_tool_changes_other mark_wipe_tower_def comp_def)
    then have "set (map extruders ?l3) = set (map extruders m_layer_tools)" by simp
    with that(3) have "\<forall>lt\<in>set ?l3. extruders lt \<noteq> []"
      by (metis (no_types, lifting) image_iff list.set_map)
    from insert_raft_gap_layer_total[OF that(1,2) this, where obz = object_bottom_z]
    show ?thesis by (auto simp: fill_wipe_tower_partitions_def split: option.splits)
  qed
  from len own mono outs total show ?thesis unfolding Let_def by blast
qed


theorem fill_wipe_tower_partitions_monotone_witness:
  "fill_wipe_tower_partitions False (3 / 10) (3 / 10) (1 / 10000)
     [(new_LayerTools (2 / 10))\<lparr>has_support := True, extruders := [1]\<rparr>,
      (new_LayerTools (16 / 10))\<lparr>has_object := True, extruders := [0, 1, 2]\<rparr>,
      (new_LayerTools (18 / 10))\<lparr>has_object := True, extruders := [2]\<rparr>]
   = Some
     [(new_LayerTools (2 / 10))\<lparr>has_support := True, extruders := [1], has_wipe_tower := True,
         wipe_tower_partitions := 3, wipe_tower_layer_height := 2 / 10\<rparr>,
      (new_LayerTools (9 / 10))\<lparr>extruders := [0], has_wipe_tower := True,
         wipe_tower_partitions := 3, wipe_tower_layer_height := 7 / 10\<rparr>,
      (new_LayerTools (16 / 10))\<lparr>has_object := True, extruders := [0, 1, 2], has_wipe_tower := True,
         wipe_tower_partitions := 3, wipe_tower_layer_height := 7 / 10\<rparr>,
      (new_LayerTools (18 / 10))\<lparr>has_object := True, extruders := [2]\<rparr>] \<and>
   map wipe_tower_partitions (count_and_propagate
     [(new_LayerTools (2 / 10))\<lparr>has_support := True, extruders := [1]\<rparr>,
      (new_LayerTools (16 / 10))\<lparr>has_object := True, extruders := [0, 1, 2]\<rparr>,
      (new_LayerTools (18 / 10))\<lparr>has_object := True, extruders := [2]\<rparr>]) = [3, 3, 0] \<and>
   non_increasing [3, 3, 3, 0]"
proof -
  let ?W = "[(new_LayerTools (2 / 10))\<lparr>has_support := True, extruders := [1]\<rparr>,
      (new_LayerTools (16 / 10))\<lparr>has_object := True, extruders := [0, 1, 2]\<rparr>,
      (new_LayerTools (18 / 10))\<lparr>has_object := True, extruders := [2]\<rparr>]"
  let ?OUT = "[(new_LayerTools (2 / 10))\<lparr>has_support := True, extruders := [1], has_wipe_tower := True,
         wipe_tower_partitions := 3, wipe_tower_layer_height := 2 / 10\<rparr>,
      (new_LayerTools (9 / 10))\<lparr>extruders := [0], has_wipe_tower := True,
         wipe_tower_partitions := 3, wipe_tower_layer_height := 7 / 10\<rparr>,
      (new_LayerTools (16 / 10))\<lparr>has_object := True, extruders := [0, 1, 2], has_wipe_tower := True,
         wipe_tower_partitions := 3, wipe_tower_layer_height := 7 / 10\<rparr>,
      (new_LayerTools (18 / 10))\<lparr>has_object := True, extruders := [2]\<rparr>]"
  have ev: "fill_wipe_tower_partitions False (3 / 10) (3 / 10) (1 / 10000) ?W = Some ?OUT"
    by code_simp
  have cp: "map wipe_tower_partitions (count_and_propagate ?W) = [3, 3, 0]"
    by code_simp
  have "map wipe_tower_partitions ?OUT = [3, 3, 3, 0]"
    by (simp add: new_LayerTools_def)
  with fill_wipe_tower_partitions_monotone[of ?W False "3 / 10" "3 / 10" "1 / 10000"] ev
  have "non_increasing [3, 3, 3, 0]"
    unfolding Let_def by metis
  with ev cp show ?thesis by blast
qed

section \<open>Properties of the per-entity overrides\<close>

lemma length_resize: "length (resize n x xs) = n"
  by (simp add: resize_def)

lemma resize_same_length: "length xs = n \<Longrightarrow> resize n x xs = xs"
  by (simp add: resize_def)

lemma resize_Nil_nth: "c < n \<Longrightarrow> resize n x [] ! c = x"
  by (simp add: resize_def)

lemma run_calls_entity_map:
  assumes "\<forall>call\<in>set calls. call_entity call = k \<longrightarrow> call_copies call = n \<and> call_copy call < n"
    and "entity_map w k = None"
  shows "(case entity_map (run_calls w calls) k of
            None \<Rightarrow> \<forall>call\<in>set calls. call_entity call \<noteq> k
          | Some v \<Rightarrow> (\<exists>call\<in>set calls. call_entity call = k) \<and> length v = n \<and>
              (\<forall>c<n. v ! c = (if overrides_of calls k c = [] then - 1
                               else call_extruder (last (overrides_of calls k c)))))"
  using assms(1)
proof (induction calls rule: rev_induct)
  case Nil
  with assms(2) show ?case by (simp add: run_calls_def)
next
  case (snoc call calls)
  obtain e ob cp ex nc where call: "call = OverrideCall e ob cp ex nc" by (cases call)
  let ?w = "run_calls w calls"
  have run: "run_calls w (calls @ [call]) = set_extruder_override e ob cp ex nc ?w"
    by (simp add: run_calls_def call)
  from snoc.prems have prem: "\<forall>call\<in>set calls. call_entity call = k \<longrightarrow> call_copies call = n \<and> call_copy call < n"
    by simp
  note IH = snoc.IH[OF prem]
  show ?case
  proof (cases "(e, ob) = k")
    case False
    then have same: "entity_map (run_calls w (calls @ [call])) k = entity_map ?w k"
      by (auto simp: run set_extruder_override_def Let_def)
    from False have ov: "overrides_of (calls @ [call]) k c = overrides_of calls k c" for c
      by (auto simp: overrides_of_def call)
    from IH False show ?thesis unfolding same ov
      by (auto simp: call split: option.splits)
  next
    case True
    with snoc.prems have nc: "nc = n" and cp: "cp < n" by (auto simp: call)
    define v0 where "v0 = (case entity_map ?w k of None \<Rightarrow> [] | Some v \<Rightarrow> v)"
    have new: "entity_map (run_calls w (calls @ [call])) k = Some ((resize n (- 1) v0)[cp := ex])"
      using True by (auto simp: run set_extruder_override_def Let_def v0_def nc)
    have old: "c < n \<Longrightarrow> resize n (- 1) v0 ! c =
        (if overrides_of calls k c = [] then - 1 else call_extruder (last (overrides_of calls k c)))" for c
    proof (cases "entity_map ?w k")
      case None
      assume c: "c < n"
      from None IH have "overrides_of calls k c = []"
        by (auto simp: overrides_of_def filter_empty_conv)
      with None c show ?thesis by (simp add: v0_def resize_Nil_nth)
    next
      case (Some v)
      assume c: "c < n"
      with Some IH show ?thesis by (simp add: v0_def resize_same_length)
    qed
    have nth: "(resize n (- 1) v0)[cp := ex] ! c =
        (if overrides_of (calls @ [call]) k c = [] then - 1
         else call_extruder (last (overrides_of (calls @ [call]) k c)))"
      if c: "c < n" for c
    proof (cases "c = cp")
      case True
      with c \<open>(e, ob) = k\<close> show ?thesis
        by (simp add: overrides_of_def call length_resize)
    next
      case False
      with c \<open>(e, ob) = k\<close> old[OF c] show ?thesis
        by (simp add: overrides_of_def call)
    qed
    from True nth show ?thesis unfolding new
      by (auto simp: call length_resize)
  qed
qed


text \<open>
  Claim C10, as amended. After any sequence of \<^verbatim>\<open>set_extruder_override\<close> calls on a table
  that had no entry for the entity/object pair (calls on the pair being in range and
  for the same number of copies), the first call of \<^verbatim>\<open>get_extruder_overrides\<close> returns
  \<^verbatim>\<open>nullptr\<close> exactly when \<^verbatim>\<open>set_extruder_override\<close> was never called for the pair;
  otherwise it returns a vector of length \<open>num_of_copies\<close> that holds, for every copy,
  the extruder of its last override when there is one and it is not \<open>-1\<close>, and
  \<open>- correct_extruder_id - 1\<close> else. With a \<open>correct_extruder_id\<close> that is not negative
  an entry is negative exactly when no extruder or a negative one was stored for the
  copy. The vector is rewritten in the table: unless \<open>correct_extruder_id\<close> is 0, a
  later call returns the same vector whatever extruder id it is given.
\<close>

theorem get_extruder_overrides_result:
  assumes "\<forall>call\<in>set calls. call_entity call = (entity, object) \<longrightarrow>
             call_copies call = num_of_copies \<and> call_copy call < num_of_copies"
    and "entity_map w (entity, object) = None"
  shows
  "(let stored = (\<lambda>c. if overrides_of calls (entity, object) c = [] then - 1
                       else call_extruder (last (overrides_of calls (entity, object) c)));
        first = get_extruder_overrides entity object correct_extruder_id num_of_copies
                  (run_calls w calls);
        again = get_extruder_overrides entity object other_extruder_id num_of_copies (snd first)
    in (fst first = None \<longleftrightarrow> (\<forall>call\<in>set calls. call_entity call \<noteq> (entity, object))) \<and>
       (\<forall>v. fst first = Some v \<longrightarrow>
          length v = num_of_copies \<and>
          (\<forall>c<num_of_copies.
             v ! c = (if stored c = - 1 then - correct_extruder_id - 1 else stored c) \<and>
             (0 \<le> correct_extruder_id \<longrightarrow> (v ! c < 0 \<longleftrightarrow> stored c < 0))) \<and>
          (correct_extruder_id \<noteq> 0 \<longrightarrow> fst again = Some v)))"
proof -
  let ?k = "(entity, object)"
  let ?w = "run_calls w calls"
  define stored where "stored = (\<lambda>c. if overrides_of calls ?k c = [] then - 1
                       else call_extruder (last (overrides_of calls ?k c)))"
  define first where
    "first = get_extruder_overrides entity object correct_extruder_id num_of_copies ?w"
  define again where
    "again = get_extruder_overrides entity object other_extruder_id num_of_copies (snd first)"
  note inv = run_calls_entity_map[OF assms]
  have goal: "(fst first = None \<longleftrightarrow> (\<forall>call\<in>set calls. call_entity call \<noteq> ?k)) \<and>
       (\<forall>v. fst first = Some v \<longrightarrow>
          length v = num_of_copies \<and>
          (\<forall>c<num_of_copies.
             v ! c = (if stored c = - 1 then - correct_extruder_id - 1 else stored c) \<and>
             (0 \<le> correct_extruder_id \<longrightarrow> (v ! c < 0 \<longleftrightarrow> stored c < 0))) \<and>
          (correct_extruder_id \<noteq> 0 \<longrightarrow> fst again = Some v))"
  proof (cases "entity_map ?w ?k")
    case None
    with inv show ?thesis by (simp add: first_def get_extruder_overrides_def)
  next
    case (Some v0)
    with inv have ex: "\<exists>call\<in>set calls. call_entity call = ?k"
      and len: "length v0 = num_of_copies"
      and nth: "\<forall>c<num_of_copies. v0 ! c = stored c"
      by (simp_all add: stored_def)
    let ?v = "map (\<lambda>x. if x = - 1 then - correct_extruder_id - 1 else x) v0"
    have res: "first = (Some ?v, ?w\<lparr>entity_map := (entity_map ?w)(?k \<mapsto> ?v)\<rparr>)"
      using Some len
      by (simp add: first_def get_extruder_overrides_def Let_def resize_same_length)
    have lv: "length ?v = num_of_copies" using len by simp
    have each: "?v ! c = (if stored c = - 1 then - correct_extruder_id - 1 else stored c) \<and>
             (0 \<le> correct_extruder_id \<longrightarrow> (?v ! c < 0 \<longleftrightarrow> stored c < 0))"
      if c: "c < num_of_copies" for c
      using nth c len by auto
    have stale: "fst again = Some ?v" if "correct_extruder_id \<noteq> 0"
    proof -
      have "x \<noteq> - 1" if "x \<in> set ?v" for x
        using that \<open>correct_extruder_id \<noteq> 0\<close> by auto
      then have "map (\<lambda>x. if x = - 1 then - other_extruder_id - 1 else x) ?v = ?v"
        by (intro map_idI) auto
      then show ?thesis
        unfolding again_def res
        by (simp add: get_extruder_overrides_def Let_def resize_same_length[OF lv])
    qed
    from ex lv each stale show ?thesis unfolding res by auto
  qed
  then show ?thesis
    unfolding Let_def stored_def first_def again_def .
qed

theorem get_extruder_overrides_result_witness:
  "fst (get_extruder_overrides 7 1 1 3
          (run_calls empty_WipingExtrusions
             [OverrideCall 7 1 0 2 3, OverrideCall 8 1 1 4 3, OverrideCall 7 1 2 0 3]))
     = Some [2, - 2, 0] \<and>
   fst (get_extruder_overrides 9 1 1 3
          (run_calls empty_WipingExtrusions
             [OverrideCall 7 1 0 2 3, OverrideCall 8 1 1 4 3, OverrideCall 7 1 2 0 3]))
     = None"
proof -
  let ?calls = "[OverrideCall 7 1 0 2 3, OverrideCall 8 1 1 4 3, OverrideCall 7 1 2 0 3]"
  have ev: "fst (get_extruder_overrides 7 1 1 3 (run_calls empty_WipingExtrusions ?calls))
     = Some [2, - 2, 0]"
    by (simp add: get_extruder_overrides_def run_calls_def set_extruder_override_def
        empty_WipingExtrusions_def resize_def Let_def eval_nat_numeral)
  have "fst (get_extruder_overrides 9 1 1 3 (run_calls empty_WipingExtrusions ?calls)) = None"
    using get_extruder_overrides_result[of ?calls 9 1 3 empty_WipingExtrusions 1 1]
    by (simp add: empty_WipingExtrusions_def Let_def)
  with ev show ?thesis by blast
qed

text \<open>
  Claim C10 as stated fails. A copy overridden with the extruder \<open>-1\<close>, which
  \<^verbatim>\<open>ensure_perimeters_infills_order\<close> passes on a layer without a non-soluble extruder,
  gives a vector that is not \<^verbatim>\<open>nullptr\<close> and holds \<open>- correct_extruder_id - 1\<close> for the
  overridden copy. And a second query with the extruder id 3, after a first one with
  the id 1, returns \<open>-2\<close> for the copies that are not overridden, not \<open>-4\<close>.
\<close>

theorem get_extruder_overrides_result_counterexample:
  "fst (get_extruder_overrides 7 1 1 3
          (run_calls empty_WipingExtrusions [OverrideCall 7 1 0 (- 1) 3]))
     = Some [- 2, - 2, - 2] \<and>
   fst (get_extruder_overrides 7 1 3 3
          (snd (get_extruder_overrides 7 1 1 3
                  (run_calls empty_WipingExtrusions [OverrideCall 7 1 0 2 3]))))
     = Some [2, - 2, - 2]"
  by (simp add: get_extruder_overrides_def run_calls_def set_extruder_override_def
      empty_WipingExtrusions_def resize_def Let_def eval_nat_numeral)

section \<open>Properties of reorder\_extruders\<close>

lemma remove1_first_index:
  "i < length xs \<Longrightarrow> xs ! i = x \<Longrightarrow> \<forall>k<i. xs ! k \<noteq> x \<Longrightarrow>
     remove1 x xs = take i xs @ drop (Suc i) xs"
proof (induction xs arbitrary: i)
  case Nil
  then show ?case by simp
next
  case (Cons y ys)
  show ?case
  proof (cases i)
    case 0
    with Cons.prems show ?thesis by simp
  next
    case (Suc k)
    with Cons.prems have "y \<noteq> x" by auto
    moreover from Suc Cons.prems have "remove1 x ys = take k ys @ drop (Suc k) ys"
      by (intro Cons.IH) auto
    ultimately show ?thesis using Suc by simp
  qed
qed

lemma move_to_front_found:
  assumes "first_from (\<lambda>i. es ! i = x) (length es) 1 < length es"
  shows "hd (move_to_front x es) = x" and "mset (move_to_front x es) = mset es"
proof -
  let ?i = "first_from (\<lambda>i. es ! i = x) (length es) 1"
  from assms show "hd (move_to_front x es) = x" by (simp add: move_to_front_def Let_def)
  have "es ! ?i = x" using first_from_holds[OF assms] .
  moreover have "mset es = mset (take ?i es @ es ! ?i # drop (Suc ?i) es)"
    using id_take_nth_drop[OF assms] by simp
  ultimately show "mset (move_to_front x es) = mset es"
    using assms by (simp add: move_to_front_def Let_def)
qed

lemma move_to_front_not_found:
  assumes "\<not> first_from (\<lambda>i. es ! i = x) (length es) 1 < length es"
  shows "move_to_front x es = es" and "x \<notin> set (tl es)"
proof -
  from assms show "move_to_front x es = es" by (simp add: move_to_front_def Let_def)
  show "x \<notin> set (tl es)"
  proof
    assume "x \<in> set (tl es)"
    then obtain k where k: "k < length (tl es)" "tl es ! k = x"
      by (auto simp: in_set_conv_nth)
    then have "Suc k < length es" "es ! Suc k = x" by (simp_all add: nth_tl)
    then have "first_from (\<lambda>i. es ! i = x) (length es) 1 \<le> Suc k"
      by (intro first_from_le) simp_all
    with \<open>Suc k < length es\<close> assms show False by simp
  qed
qed

lemma move_to_front_hd: "x \<in> set es \<Longrightarrow> hd (move_to_front x es) = x"
proof (cases "first_from (\<lambda>i. es ! i = x) (length es) 1 < length es")
  case True
  then show ?thesis by (rule move_to_front_found)
next
  case False
  assume "x \<in> set es"
  with move_to_front_not_found(2)[OF False] have "hd es = x"
    by (cases es) auto
  with move_to_front_not_found(1)[OF False] show ?thesis by simp
qed

lemma mset_move_to_front: "mset (move_to_front x es) = mset es"
  by (cases "first_from (\<lambda>i. es ! i = x) (length es) 1 < length es")
     (simp_all add: move_to_front_found move_to_front_not_found)

lemma move_to_front_absent: "x \<notin> set es \<Longrightarrow> move_to_front x es = es"
proof (rule move_to_front_not_found(1), rule notI)
  assume "x \<notin> set es" and lt: "first_from (\<lambda>i. es ! i = x) (length es) 1 < length es"
  from first_from_holds[OF lt] lt have "x \<in> set es" by (metis nth_mem)
  with \<open>x \<notin> set es\<close> show False by simp
qed

lemma move_to_front_distinct:
  assumes "distinct es" "x \<in> set es"
  shows "move_to_front x es = x # remove1 x es"
proof (cases "first_from (\<lambda>i. es ! i = x) (length es) 1 < length es")
  case True
  let ?i = "first_from (\<lambda>i. es ! i = x) (length es) 1"
  have at: "es ! ?i = x" using first_from_holds[OF True] .
  have "\<forall>k<?i. es ! k \<noteq> x"
  proof (intro allI impI notI)
    fix k assume k: "k < ?i" "es ! k = x"
    with True have "k < length es" by simp
    from nth_eq_iff_index_eq[OF assms(1) this True] k at show False by simp
  qed
  from remove1_first_index[OF True at this] True show ?thesis
    by (simp add: move_to_front_def Let_def)
next
  case False
  from move_to_front_not_found[OF False] assms(2) obtain ys where "es = x # ys"
    by (cases es) auto
  with move_to_front_not_found(1)[OF False] show ?thesis by simp
qed

lemma move_to_front_Nil_iff: "move_to_front x es = [] \<longleftrightarrow> es = []"
  using mset_move_to_front[of x es] by (metis mset_zero_iff)


lemma length_prefer_soluble: "length (prefer_soluble s es) = length es"
  by (simp add: prefer_soluble_def Let_def)

lemma reorder_layer_Nil_iff: "es \<noteq> [] \<Longrightarrow> reorder_layer b s l es \<noteq> []"
proof -
  assume ne: "es \<noteq> []"
  show ?thesis
  proof (cases "length es = 1 \<and> hd es = 0")
    case True
    then show ?thesis by (simp add: reorder_layer_def)
  next
    case False
    with ne have "drop_sentinel es \<noteq> []"
      by (cases es) (auto simp: drop_sentinel_def)
    then have "move_to_front l (drop_sentinel es) \<noteq> []"
      by (simp add: move_to_front_Nil_iff)
    then have "length (prefer_soluble s (move_to_front l (drop_sentinel es))) \<noteq> 0"
      by (simp add: length_prefer_soluble)
    with \<open>move_to_front l (drop_sentinel es) \<noteq> []\<close> False show ?thesis
      by (auto simp: reorder_layer_def Let_def)
  qed
qed

lemma carried_extruder_0: "carried_extruder l lts 0 = l"
  by (simp add: carried_extruder_def)

lemma carried_extruder_Suc:
  "carried_extruder l (lt # lts) (Suc i) =
     carried_extruder (if extruders lt = [] then l else last (extruders lt)) lts i"
  by (simp add: carried_extruder_def split: list.splits)

lemma length_reorder_loop: "length (reorder_loop p s z0 l lts) = length lts"
  by (induction lts arbitrary: l) (simp_all add: Let_def)

lemma reorder_loop_nth:
  "i < length lts \<Longrightarrow>
   extruders (reorder_loop p s z0 l lts ! i) =
     (if extruders (lts ! i) = [] then []
      else reorder_layer (print_z (lts ! i) = z0 \<and> p) s
             (carried_extruder l (reorder_loop p s z0 l lts) i) (extruders (lts ! i)))"
proof (induction lts arbitrary: l i)
  case Nil
  then show ?case by simp
next
  case (Cons lt lts)
  show ?case
  proof (cases i)
    case 0
    then show ?thesis by (simp add: Let_def carried_extruder_0)
  next
    case (Suc k)
    with Cons.prems have k: "k < length lts" by simp
    show ?thesis
    proof (cases "extruders lt = []")
      case True
      with Suc Cons.IH[OF k, of l] show ?thesis
        by (simp add: carried_extruder_Suc)
    next
      case False
      let ?es = "reorder_layer (print_z lt = z0 \<and> p) s l (extruders lt)"
      have "?es \<noteq> []" using False by (rule reorder_layer_Nil_iff)
      with Suc False Cons.IH[OF k, of "last ?es"] show ?thesis
        by (simp add: Let_def carried_extruder_Suc)
    qed
  qed
qed

lemma drop_sentinel_multi: "hd es = 0 \<Longrightarrow> 1 < length es \<Longrightarrow> drop_sentinel es = tl es"
  by (simp add: drop_sentinel_def)

lemma singleton_sentinel: "length es = 1 \<and> hd es = 0 \<longleftrightarrow> es = [0]"
  by (cases es) auto

lemma reorder_layer_sentinel: "reorder_layer b s l [0] = [l]"
  by (simp add: reorder_layer_def)

lemma reorder_layer_other:
  "es \<noteq> [0] \<Longrightarrow>
   reorder_layer b s l es =
     (if b then prefer_soluble s (move_to_front l (drop_sentinel es))
      else move_to_front l (drop_sentinel es))"
  using singleton_sentinel[of es] by (auto simp: reorder_layer_def Let_def)

text \<open>
  The loop over the layers: every layer without extruders stays empty; a layer that is
  exactly the sentinel \<open>[0]\<close> becomes the carried-over extruder alone; any other layer
  first loses a sentinel \<open>0\<close> at its front, and then the carried-over extruder, if it
  is among the extruders left, is moved to the front.
\<close>

lemma reorder_loop_layers:
  "i < length lts \<Longrightarrow>
   (let out = reorder_loop enable_prime_tower filament_soluble z0 last_extruder_id lts;
        es = extruders (lts ! i);
        res = extruders (out ! i);
        carried = carried_extruder last_extruder_id out i
    in length out = length lts \<and>
       (es = [] \<longrightarrow> res = []) \<and>
       (es = [0] \<longrightarrow> res = [carried]) \<and>
       (hd es = 0 \<and> 1 < length es \<longrightarrow> drop_sentinel es = tl es) \<and>
       (es \<noteq> [] \<and> es \<noteq> [0] \<and> \<not> (print_z (lts ! i) = z0 \<and> enable_prime_tower) \<longrightarrow>
          (carried \<in> set (drop_sentinel es) \<longrightarrow>
             hd res = carried \<and> mset res = mset (drop_sentinel es) \<and>
             (distinct es \<longrightarrow> res = carried # remove1 carried (drop_sentinel es))) \<and>
          (carried \<notin> set (drop_sentinel es) \<longrightarrow> res = drop_sentinel es)) \<and>
       (es \<noteq> [] \<and> es \<noteq> [0] \<and> print_z (lts ! i) = z0 \<and> enable_prime_tower \<longrightarrow>
          res = prefer_soluble filament_soluble (move_to_front carried (drop_sentinel es))))"
proof -
  assume i: "i < length lts"
  let ?out = "reorder_loop enable_prime_tower filament_soluble z0 last_extruder_id lts"
  let ?es = "extruders (lts ! i)"
  let ?res = "extruders (?out ! i)"
  let ?c = "carried_extruder last_extruder_id ?out i"
  note nth = reorder_loop_nth[OF i, of enable_prime_tower filament_soluble z0 last_extruder_id]
  have c1: "length ?out = length lts" by (rule length_reorder_loop)
  have c2: "?es = [] \<longrightarrow> ?res = []" using nth by simp
  have c3: "?es = [0] \<longrightarrow> ?res = [?c]" using nth by (simp add: reorder_layer_sentinel)
  have c4: "hd ?es = 0 \<and> 1 < length ?es \<longrightarrow> drop_sentinel ?es = tl ?es"
    by (simp add: drop_sentinel_multi)
  have plain: "?res = move_to_front ?c (drop_sentinel ?es)"
    if "?es \<noteq> []" "?es \<noteq> [0]" "\<not> (print_z (lts ! i) = z0 \<and> enable_prime_tower)"
    using that nth by (auto simp: reorder_layer_other)
  have dist: "distinct (drop_sentinel ?es)" if "distinct ?es"
    using that by (auto simp: drop_sentinel_def distinct_tl)
  have c5: "?es \<noteq> [] \<and> ?es \<noteq> [0] \<and> \<not> (print_z (lts ! i) = z0 \<and> enable_prime_tower) \<longrightarrow>
          (?c \<in> set (drop_sentinel ?es) \<longrightarrow>
             hd ?res = ?c \<and> mset ?res = mset (drop_sentinel ?es) \<and>
             (distinct ?es \<longrightarrow> ?res = ?c # remove1 ?c (drop_sentinel ?es))) \<and>
          (?c \<notin> set (drop_sentinel ?es) \<longrightarrow> ?res = drop_sentinel ?es)"
    using plain dist
    by (auto simp: move_to_front_hd mset_move_to_front move_to_front_distinct
        move_to_front_absent)
  have c6: "?es \<noteq> [] \<and> ?es \<noteq> [0] \<and> print_z (lts ! i) = z0 \<and> enable_prime_tower \<longrightarrow>
          ?res = prefer_soluble filament_soluble (move_to_front ?c (drop_sentinel ?es))"
    using nth by (auto simp: reorder_layer_other)
  from c1 c2 c3 c4 c5 c6 show ?thesis unfolding Let_def by blast
qed

lemma reindex_extruders_nth:
  "i < length lts \<Longrightarrow> extruders (reindex_extruders lts ! i) = map (\<lambda>e. e - 1) (extruders (lts ! i))"
  by (simp add: reindex_extruders_def)

lemma length_reindex_extruders: "length (reindex_extruders lts) = length lts"
  by (simp add: reindex_extruders_def)

lemma one_based_again: "map (\<lambda>e. e + 1) (map (\<lambda>e. e - 1) es) = (es :: extruder_id list)"
  by (induction es) simp_all

lemma carried_extruder_alt:
  "carried_extruder l lts i =
     (if filter (\<lambda>lt. extruders lt \<noteq> []) (take i lts) = [] then l
      else last (extruders (last (filter (\<lambda>lt. extruders lt \<noteq> []) (take i lts)))))"
  by (simp add: carried_extruder_def split: list.split)

lemma carried_extruder_reindex:
  "carried_extruder (l - 1) (reindex_extruders lts) i + 1 = carried_extruder l lts i"
proof -
  let ?f = "\<lambda>lt. lt\<lparr>extruders := map (\<lambda>e. e - 1) (extruders lt)\<rparr>"
  let ?xs = "filter (\<lambda>lt. extruders lt \<noteq> []) (take i lts)"
  have flt: "filter (\<lambda>lt. extruders lt \<noteq> []) (take i (reindex_extruders lts)) = map ?f ?xs"
    by (simp add: reindex_extruders_def take_map filter_map comp_def)
  show ?thesis
  proof (cases "?xs = []")
    case True
    then show ?thesis unfolding carried_extruder_alt flt by simp
  next
    case False
    then have "last ?xs \<in> set ?xs" by (rule last_in_set)
    then have ne: "extruders (last ?xs) \<noteq> []" by simp
    have "last (map ?f ?xs) = ?f (last ?xs)" using False by (rule last_map)
    then have "last (extruders (last (map ?f ?xs))) = last (extruders (last ?xs)) - 1"
      using ne by (simp add: last_map)
    with False show ?thesis unfolding carried_extruder_alt flt by simp
  qed
qed

text \<open>
  Claim C4, as amended. \<^verbatim>\<open>reorder_extruders(last_extruder_id)\<close> leaves the layers as they
  are when the initial extruder is not known and no layer has an extruder other than
  the sentinel \<open>0\<close>. Otherwise, in the layers that it re-indexes and hands on to the
  sequencing for minimum flush volume, read with one-based ids: a layer without
  extruders stays empty; a layer that is exactly the sentinel \<open>[0]\<close> is the carried-over
  extruder alone; any other layer first loses a sentinel \<open>0\<close> at its front, and then, if
  the carried-over extruder is among the extruders left, that extruder is moved to the
  front (the others keep their order), else the layer is left as it is. The
  carried-over extruder of a layer is the last extruder of the nearest printing layer
  below it in the result, or the initial extruder when there is none. Only the first
  layer of a print with a wipe tower is treated further: its first soluble extruder
  is then swapped to the front.
\<close>

theorem reorder_extruders_layers:
  "i < length m_layer_tools \<Longrightarrow>
   (let start = (if last_extruder_id = - 1 then first_nonzero_extruder m_layer_tools
                 else last_extruder_id + 1);
        out = reorder_extruders enable_prime_tower filament_soluble last_extruder_id m_layer_tools;
        z0 = print_z (hd m_layer_tools);
        es = extruders (m_layer_tools ! i);
        res = map (\<lambda>e. e + 1) (extruders (out ! i));
        carried = carried_extruder (start - 1) out i + 1
    in (start = 0 \<longrightarrow> out = m_layer_tools) \<and>
       (start \<noteq> 0 \<longrightarrow>
          length out = length m_layer_tools \<and>
          (es = [] \<longrightarrow> res = []) \<and>
          (es = [0] \<longrightarrow> res = [carried]) \<and>
          (hd es = 0 \<and> 1 < length es \<longrightarrow> drop_sentinel es = tl es) \<and>
          (es \<noteq> [] \<and> es \<noteq> [0] \<and> \<not> (print_z (m_layer_tools ! i) = z0 \<and> enable_prime_tower) \<longrightarrow>
             (carried \<in> set (drop_sentinel es) \<longrightarrow>
                hd res = carried \<and> mset res = mset (drop_sentinel es) \<and>
                (distinct es \<longrightarrow> res = carried # remove1 carried (drop_sentinel es))) \<and>
             (carried \<notin> set (drop_sentinel es) \<longrightarrow> res = drop_sentinel es)) \<and>
          (es \<noteq> [] \<and> es \<noteq> [0] \<and> print_z (m_layer_tools ! i) = z0 \<and> enable_prime_tower \<longrightarrow>
             res = prefer_soluble filament_soluble (move_to_front carried (drop_sentinel es)))))"
proof -
  assume i: "i < length m_layer_tools"
  define start where "start = (if last_extruder_id = - 1
      then first_nonzero_extruder m_layer_tools else last_extruder_id + 1)"
  define z0 where "z0 = print_z (hd m_layer_tools)"
  define loop where "loop = reorder_loop enable_prime_tower filament_soluble z0 start m_layer_tools"
  define out where
    "out = reorder_extruders enable_prime_tower filament_soluble last_extruder_id m_layer_tools"
  from i have ne: "m_layer_tools \<noteq> []" by auto
  have known: "start \<noteq> 0" if "last_extruder_id \<noteq> - 1"
  proof
    assume "start = 0"
    with that have "last_extruder_id + 1 = 0" by (simp add: start_def)
    then have "last_extruder_id = 0 - 1" by (simp only: eq_diff_eq)
    then have "last_extruder_id = - 1" by simp
    with that show False by simp
  qed
  have early: "out = m_layer_tools" if "start = 0"
    using that known unfolding out_def reorder_extruders_def start_def
    by (auto simp: Let_def)
  have run: "out = reindex_extruders loop" if "start \<noteq> 0"
    using that ne unfolding out_def reorder_extruders_def start_def loop_def z0_def
    by (auto simp: Let_def)
  have il: "i < length loop" using i by (simp add: loop_def length_reorder_loop)
  have res: "map (\<lambda>e. e + 1) (extruders (out ! i)) = extruders (loop ! i)" if "start \<noteq> 0"
    unfolding run[OF that] reindex_extruders_nth[OF il] by (rule one_based_again)
  have car: "carried_extruder (start - 1) out i + 1 = carried_extruder start loop i"
    if "start \<noteq> 0"
    unfolding run[OF that] by (rule carried_extruder_reindex)
  have len: "length out = length m_layer_tools" if "start \<noteq> 0"
    unfolding run[OF that] by (simp add: length_reindex_extruders loop_def length_reorder_loop)
  note layers = reorder_loop_layers[OF i, of enable_prime_tower filament_soluble z0 start,
      unfolded Let_def, folded loop_def]
  show ?thesis
    unfolding Let_def start_def[symmetric] z0_def[symmetric] out_def[symmetric]
  proof (intro conjI impI)
    assume "start = 0"
    then show "out = m_layer_tools" by (rule early)
  next
    assume s: "start \<noteq> 0"
    show "length out = length m_layer_tools" using s by (rule len)
  qed (use layers res car in \<open>simp_all\<close>)
qed


theorem reorder_extruders_layers_witness:
  "map (\<lambda>e. e + 1) (extruders (reorder_extruders False (\<lambda>f. False) 1
      [(new_LayerTools 1)\<lparr>extruders := [0]\<rparr>, (new_LayerTools 2)\<lparr>extruders := [0, 2, 3]\<rparr>,
       (new_LayerTools 3)\<lparr>extruders := []\<rparr>, (new_LayerTools 4)\<lparr>extruders := [1, 2, 3]\<rparr>,
       (new_LayerTools 5)\<lparr>extruders := [0]\<rparr>, (new_LayerTools 6)\<lparr>extruders := [1, 2]\<rparr>] ! 3))
     = [3, 1, 2] \<and>
   map extruders (reorder_extruders False (\<lambda>f. False) 1
      [(new_LayerTools 1)\<lparr>extruders := [0]\<rparr>, (new_LayerTools 2)\<lparr>extruders := [0, 2, 3]\<rparr>,
       (new_LayerTools 3)\<lparr>extruders := []\<rparr>, (new_LayerTools 4)\<lparr>extruders := [1, 2, 3]\<rparr>,
       (new_LayerTools 5)\<lparr>extruders := [0]\<rparr>, (new_LayerTools 6)\<lparr>extruders := [1, 2]\<rparr>])
     = [[1], [1, 2], [], [2, 0, 1], [1], [1, 0]]"
proof -
  let ?L = "[(new_LayerTools 1)\<lparr>extruders := [0]\<rparr>, (new_LayerTools 2)\<lparr>extruders := [0, 2, 3]\<rparr>,
       (new_LayerTools 3)\<lparr>extruders := []\<rparr>, (new_LayerTools 4)\<lparr>extruders := [1, 2, 3]\<rparr>,
       (new_LayerTools 5)\<lparr>extruders := [0]\<rparr>, (new_LayerTools 6)\<lparr>extruders := [1, 2]\<rparr>]"
  let ?out = "reorder_extruders False (\<lambda>f. False) 1 ?L"
  have i: "3 < length ?L" by simp
  have es: "extruders (?L ! 3) = [1, 2, 3]" by simp
  have ds: "drop_sentinel [1, 2, 3] = [1, 2, 3]" by (simp add: drop_sentinel_def)
  have start: "(if (1 :: extruder_id) = - 1 then first_nonzero_extruder ?L else 1 + 1) = 2"
    by simp
  have car: "carried_extruder (2 - 1) ?out 3 + 1 = 3" by code_simp
  have all: "map extruders ?out = [[1], [1, 2], [], [2, 0, 1], [1], [1, 0]]" by code_simp
  from reorder_extruders_layers[OF i, of 1 False "\<lambda>f. False"]
  have "map (\<lambda>e. e + 1) (extruders (?out ! 3)) = 3 # remove1 3 [1, 2, 3]"
    unfolding Let_def start es car ds by simp
  then have "map (\<lambda>e. e + 1) (extruders (?out ! 3)) = [3, 1, 2]" by simp
  with all show ?thesis by blast
qed

text \<open>
  Claim C4 as stated fails. With an initial extruder that is not known and two layers
  that are both the sentinel \<open>[0]\<close>, \<^verbatim>\<open>reorder_extruders\<close> finds nothing to extrude and
  returns: both layers keep the sentinel.
\<close>

theorem reorder_extruders_layers_counterexample:
  "first_nonzero_extruder
     [(new_LayerTools 1)\<lparr>extruders := [0]\<rparr>, (new_LayerTools 2)\<lparr>extruders := [0]\<rparr>] = 0 \<and>
   map extruders (reorder_extruders False (\<lambda>f. False) (- 1)
     [(new_LayerTools 1)\<lparr>extruders := [0]\<rparr>, (new_LayerTools 2)\<lparr>extruders := [0]\<rparr>])
     = [[0], [0]]"
  by (simp add: reorder_extruders_def new_LayerTools_def)

lemma set_prefer_soluble: "set (prefer_soluble s es) = set es"
proof -
  let ?i = "first_from (\<lambda>i. s (unat (es ! i - 1))) (length es) 0"
  have "mset (es[0 := es ! ?i, ?i := es ! 0]) = mset es" if "?i < length es"
    using that by (intro mset_swap) auto
  then have "mset (prefer_soluble s es) = mset es"
    by (simp add: prefer_soluble_def Let_def)
  then show ?thesis by (rule mset_eq_setD)
qed

lemma set_move_to_front: "set (move_to_front x es) = set es"
  using mset_move_to_front[of x es] by (rule mset_eq_setD)

lemma set_reorder_layer:
  "set (reorder_layer b s l es) = (if es = [0] then {l} else set (drop_sentinel es))"
  by (cases "es = [0]")
     (simp_all add: reorder_layer_sentinel reorder_layer_other set_prefer_soluble set_move_to_front)

lemma drop_sentinel_valid:
  assumes "\<forall>e\<in>set es. unat e \<le> n" "0 \<notin> set (tl es)"
  shows "\<forall>e\<in>set (drop_sentinel es). valid_id n e"
proof (cases es)
  case Nil
  then show ?thesis by (simp add: drop_sentinel_def)
next
  case (Cons x xs)
  with assms show ?thesis
    by (auto simp: drop_sentinel_def valid_id_def)
qed

lemma reorder_layer_valid:
  assumes "valid_id n l" "\<forall>e\<in>set es. unat e \<le> n" "0 \<notin> set (tl es)"
  shows "\<forall>e\<in>set (reorder_layer b s l es). valid_id n e"
  using assms(1) drop_sentinel_valid[OF assms(2,3)]
  by (simp add: set_reorder_layer)

lemma reorder_loop_valid:
  assumes "valid_id n l"
    and "\<forall>lt\<in>set lts. (\<forall>e\<in>set (extruders lt). unat e \<le> n) \<and> 0 \<notin> set (tl (extruders lt))"
  shows "\<forall>lt\<in>set (reorder_loop p s z0 l lts). \<forall>e\<in>set (extruders lt). valid_id n e"
  using assms
proof (induction lts arbitrary: l)
  case Nil
  then show ?case by simp
next
  case (Cons lt lts)
  from Cons.prems(2) have rest:
    "\<forall>lt\<in>set lts. (\<forall>e\<in>set (extruders lt). unat e \<le> n) \<and> 0 \<notin> set (tl (extruders lt))"
    and this_layer: "\<forall>e\<in>set (extruders lt). unat e \<le> n" "0 \<notin> set (tl (extruders lt))"
    by simp_all
  show ?case
  proof (cases "extruders lt = []")
    case True
    with Cons.IH[OF Cons.prems(1) rest] show ?thesis by simp
  next
    case False
    let ?es = "reorder_layer (print_z lt = z0 \<and> p) s l (extruders lt)"
    have v: "\<forall>e\<in>set ?es. valid_id n e"
      using Cons.prems(1) this_layer by (rule reorder_layer_valid)
    have "?es \<noteq> []" using False by (rule reorder_layer_Nil_iff)
    with v have "valid_id n (last ?es)" by simp
    from Cons.IH[OF this rest] v False show ?thesis by (simp add: Let_def)
  qed
qed

lemma reindex_valid:
  assumes "\<forall>lt\<in>set lts. \<forall>e\<in>set (extruders lt). valid_id n e"
  shows "ids_in_range n (reindex_extruders lts)"
proof -
  have dec: "unat (e - 1) < n" if "valid_id n e" for e
  proof -
    from that have "e \<noteq> 0" "unat e \<le> n" by (simp_all add: valid_id_def)
    moreover from this have "unat (e - 1) = unat e - 1" "0 < unat e"
      by (simp_all add: unat_minus_one unat_gt_0)
    ultimately show ?thesis by arith
  qed
  have "list_all (\<lambda>e. unat e < n) (map (\<lambda>e. e - 1) (extruders lt))" if "lt \<in> set lts" for lt
    using that assms dec by (simp add: list_all_iff)
  then show ?thesis
    by (simp add: ids_in_range_def reindex_extruders_def list_all_iff comp_def)
qed

lemma first_nonzero_extruder_cases:
  "(first_nonzero_extruder lts = 0 \<and> (\<forall>lt\<in>set lts. \<forall>e\<in>set (extruders lt). e = 0)) \<or>
   (first_nonzero_extruder lts \<noteq> 0 \<and>
      (\<exists>lt\<in>set lts. first_nonzero_extruder lts \<in> set (extruders lt)))"
proof (induction lts)
  case Nil
  then show ?case by simp
next
  case (Cons lt lts)
  show ?case
  proof (cases "find (\<lambda>e. 0 < e) (extruders lt)")
    case None
    then have "\<forall>e\<in>set (extruders lt). \<not> 0 < e"
      by (simp add: find_None_iff)
    then have "\<forall>e\<in>set (extruders lt). e = 0"
      using word_gt_0 by blast
    moreover have "first_nonzero_extruder (lt # lts) = first_nonzero_extruder lts"
      using None by simp
    ultimately show ?thesis using Cons.IH by simp blast
  next
    case (Some e)
    then have "e \<in> set (extruders lt)" "0 < e"
      by (auto simp: find_Some_iff)
    moreover from this have "e \<noteq> 0" using word_gt_0 by blast
    moreover have "first_nonzero_extruder (lt # lts) = e"
      using Some by simp
    ultimately show ?thesis by simp
  qed
qed

text \<open>
  The first overload keeps the invariant of claim C5: when every collected id is at
  most the number of extruders, the sentinel \<open>0\<close> stands only at the front of a layer
  and the initial extruder is undecided or in range, every id of the result is below
  the number of extruders.
\<close>

theorem reorder_extruders_in_range:
  assumes "0 < extruder_count"
    and "\<forall>lt\<in>set lts. (\<forall>e\<in>set (extruders lt). unat e \<le> extruder_count) \<and>
                         0 \<notin> set (tl (extruders lt))"
    and "last_extruder_id = - 1 \<or> unat last_extruder_id < extruder_count"
  shows "ids_in_range extruder_count
           (reorder_extruders enable_prime_tower filament_soluble last_extruder_id lts)"
proof (cases "lts = []")
  case True
  then show ?thesis by (simp add: reorder_extruders_def ids_in_range_def)
next
  case ne: False
  show ?thesis
  proof (cases "last_extruder_id = - 1")
    case True
    from first_nonzero_extruder_cases[of lts] show ?thesis
    proof (elim disjE conjE)
      assume "first_nonzero_extruder lts = 0" and zero: "\<forall>lt\<in>set lts. \<forall>e\<in>set (extruders lt). e = 0"
      have "unat e < extruder_count" if "lt \<in> set lts" "e \<in> set (extruders lt)" for lt e
      proof -
        from zero that have "e = 0" by blast
        with assms(1) show ?thesis by simp
      qed
      then have "ids_in_range extruder_count lts"
        by (auto simp: ids_in_range_def list_all_iff)
      with ne True \<open>first_nonzero_extruder lts = 0\<close> show ?thesis
        by (simp add: reorder_extruders_def)
    next
      assume nz: "first_nonzero_extruder lts \<noteq> 0"
        and "\<exists>lt\<in>set lts. first_nonzero_extruder lts \<in> set (extruders lt)"
      with assms(2) have "valid_id extruder_count (first_nonzero_extruder lts)"
        by (auto simp: valid_id_def)
      from reindex_valid[OF reorder_loop_valid[OF this assms(2)]] ne True nz show ?thesis
        by (simp add: reorder_extruders_def Let_def)
    qed
  next
    case False
    with assms(3) have lt: "unat last_extruder_id < extruder_count" by simp
    from False have "last_extruder_id + 1 \<noteq> 0" by (simp add: add_eq_0_iff2)
    moreover from this have "unat (last_extruder_id + 1) = Suc (unat last_extruder_id)"
      using unatSuc[of last_extruder_id] by (simp add: add.commute)
    ultimately have "valid_id extruder_count (last_extruder_id + 1)"
      using lt by (simp add: valid_id_def)
    from reindex_valid[OF reorder_loop_valid[OF this assms(2)]] ne False show ?thesis
      by (simp add: reorder_extruders_def)
  qed
qed

text \<open>
  Claim C5 fails on the second overload. With an empty first-layer tool order and two
  layers that only hold the sentinel \<open>0\<close> (support printed with the "current"
  extruder), the first layer loses its sentinel, no non-zero extruder is found, the
  second layer keeps \<open>0\<close>, and the re-indexing loop decrements it: the
  \<^verbatim>\<open>unsigned int\<close> wraps to \<open>4294967295\<close>, which is no extruder id. The source asserts
  \<^verbatim>\<open>extruder_id > 0\<close> at that place, and the first overload returns early in the same
  situation ("Nothing to extrude"), leaving the sentinels as they are.
\<close>

theorem reorder_extruders_order_wraps:
  "map extruders (reorder_extruders_order []
     [(new_LayerTools 1)\<lparr>has_support := True, extruders := [0]\<rparr>,
      (new_LayerTools 2)\<lparr>has_support := True, extruders := [0]\<rparr>]) = [[], [4294967295]] \<and>
   \<not> ids_in_range 16 (reorder_extruders_order []
     [(new_LayerTools 1)\<lparr>has_support := True, extruders := [0]\<rparr>,
      (new_LayerTools 2)\<lparr>has_support := True, extruders := [0]\<rparr>]) \<and>
   map extruders (reorder_extruders False (\<lambda>f. False) (- 1)
     [(new_LayerTools 1)\<lparr>has_support := True, extruders := [0]\<rparr>,
      (new_LayerTools 2)\<lparr>has_support := True, extruders := [0]\<rparr>]) = [[0], [0]]"
proof -
  let ?L = "[(new_LayerTools 1)\<lparr>has_support := True, extruders := [0]\<rparr>,
      (new_LayerTools 2)\<lparr>has_support := True, extruders := [0]\<rparr>]"
  have wrap: "map extruders (reorder_extruders_order [] ?L) = [[], [4294967295]]"
    by code_simp
  have "\<not> ids_in_range 16 (reorder_extruders_order [] ?L)"
    unfolding ids_in_range_def wrap by simp
  moreover have "map extruders (reorder_extruders False (\<lambda>f. False) (- 1) ?L) = [[0], [0]]"
    by code_simp
  ultimately show ?thesis using wrap by blast
qed

section \<open>Properties of mark\_skirt\_layers\<close>

lemma skirt_marks_only_refl: "skirt_marks_only lts lts"
  by (simp add: skirt_marks_only_def)

lemma skirt_marks_only_trans:
  assumes "skirt_marks_only a b" "skirt_marks_only b c"
  shows "skirt_marks_only a c"
proof -
  from assms have len: "length b = length a" "length c = length a"
    by (simp_all add: skirt_marks_only_def)
  have "c ! i = (a ! i)\<lparr>has_skirt := has_skirt (c ! i)\<rparr> \<and> (has_skirt (a ! i) \<longrightarrow> has_skirt (c ! i))"
    if i: "i < length a" for i
  proof -
    from assms(1) i have 1: "b ! i = (a ! i)\<lparr>has_skirt := has_skirt (b ! i)\<rparr>"
      and 2: "has_skirt (a ! i) \<longrightarrow> has_skirt (b ! i)"
      by (simp_all add: skirt_marks_only_def)
    from assms(2) i len have 3: "c ! i = (b ! i)\<lparr>has_skirt := has_skirt (c ! i)\<rparr>"
      and 4: "has_skirt (b ! i) \<longrightarrow> has_skirt (c ! i)"
      by (simp_all add: skirt_marks_only_def)
    from 3 have "c ! i = (a ! i)\<lparr>has_skirt := has_skirt (b ! i)\<rparr>\<lparr>has_skirt := has_skirt (c ! i)\<rparr>"
      by (subst (asm) 1) simp
    with 2 4 show ?thesis by simp
  qed
  with len show ?thesis by (simp add: skirt_marks_only_def)
qed

lemma skirt_marks_only_mark:
  "skirt_marks_only lts (lts[k := (lts ! k)\<lparr>has_skirt := True\<rparr>])"
proof (cases "k < length lts")
  case True
  then show ?thesis by (auto simp: skirt_marks_only_def nth_list_update)
next
  case False
  then show ?thesis by (simp add: skirt_marks_only_def not_less list_update_beyond)
qed

lemma skirt_marks_only_fields:
  assumes "skirt_marks_only lts out" "b < length lts"
  shows "print_z (out ! b) = print_z (lts ! b)"
    and "extruders (out ! b) = extruders (lts ! b)"
    and "has_object (out ! b) = has_object (lts ! b)"
proof -
  from assms have eq: "out ! b = (lts ! b)\<lparr>has_skirt := has_skirt (out ! b)\<rparr>"
    by (simp add: skirt_marks_only_def)
  show "print_z (out ! b) = print_z (lts ! b)" by (subst eq) simp
  show "extruders (out ! b) = extruders (lts ! b)" by (subst eq) simp
  show "has_object (out ! b) = has_object (lts ! b)" by (subst eq) simp
qed

lemma skirt_marks_only_length: "skirt_marks_only lts out \<Longrightarrow> length out = length lts"
  by (simp add: skirt_marks_only_def)

lemma skirt_marks_only_keeps:
  "skirt_marks_only lts out \<Longrightarrow> b < length lts \<Longrightarrow> has_skirt (lts ! b) \<Longrightarrow> has_skirt (out ! b)"
  by (simp add: skirt_marks_only_def)

lemma step_down_total:
  assumes "extruders (lts ! 0) \<noteq> []"
  shows "\<exists>k'. step_down lts k = Some k' \<and> k' \<le> k \<and> extruders (lts ! k') \<noteq> []"
  using assms by (induction k) auto

lemma step_down_nonempty:
  "extruders (lts ! k) \<noteq> [] \<Longrightarrow> step_down lts k = Some k"
  by (cases k) simp_all


lemma skirt_between_total:
  assumes "extruders (lts ! 0) \<noteq> []"
  shows "\<exists>out. skirt_between mlh eps j lts k last_z = Some out \<and> skirt_marks_only lts out \<and>
           (\<forall>b<length lts. has_skirt (out ! b) \<and> \<not> has_skirt (lts ! b) \<longrightarrow>
              b < j \<and> extruders (lts ! b) \<noteq> [])"
  using assms
proof (induction mlh eps j lts k last_z rule: skirt_between.induct)
  case (1 mlh eps j lts k last_z)
  show ?case
  proof (cases "k < j \<and> j < length lts")
    case False
    then have "skirt_between mlh eps j lts k last_z = Some lts"
      by (subst skirt_between.simps) auto
    then show ?thesis by (simp add: skirt_marks_only_refl)
  next
    case True
    show ?thesis
    proof (cases "print_z (lts ! Suc k) - last_z > mlh + eps")
      case near: False
      from "1.IH"(2)[OF True near "1.prems"] obtain out where
        out: "skirt_between mlh eps j lts (Suc k) last_z = Some out" "skirt_marks_only lts out"
          "\<forall>b<length lts. has_skirt (out ! b) \<and> \<not> has_skirt (lts ! b) \<longrightarrow>
              b < j \<and> extruders (lts ! b) \<noteq> []"
        by blast
      from True near have "skirt_between mlh eps j lts k last_z
          = skirt_between mlh eps j lts (Suc k) last_z"
        by (subst skirt_between.simps) auto
      with out show ?thesis by simp
    next
      case far: True
      from step_down_total[OF "1.prems", of k] obtain k' where
        k': "step_down lts k = Some k'" "k' \<le> k" "extruders (lts ! k') \<noteq> []" by blast
      show ?thesis
      proof (cases "has_skirt (lts ! k')")
        case marked: True
        with True far k' have "skirt_between mlh eps j lts k last_z = Some lts"
          by (subst skirt_between.simps) auto
        then show ?thesis by (simp add: skirt_marks_only_refl)
      next
        case unmarked: False
        let ?lts = "lts[k' := (lts ! k')\<lparr>has_skirt := True\<rparr>]"
        from True k' have k'n: "k' < length lts" "k' < j" by simp_all
        have first: "extruders (?lts ! 0) \<noteq> []"
          using "1.prems" k'n by (cases "k' = 0") simp_all
        from "1.IH"(1)[OF True far k'(1) unmarked first] obtain out where
          out: "skirt_between mlh eps j ?lts (Suc k') (print_z (lts ! k')) = Some out"
            "skirt_marks_only ?lts out"
            "\<forall>b<length ?lts. has_skirt (out ! b) \<and> \<not> has_skirt (?lts ! b) \<longrightarrow>
              b < j \<and> extruders (?lts ! b) \<noteq> []"
          by blast
        from True far k' unmarked have eq: "skirt_between mlh eps j lts k last_z
          = skirt_between mlh eps j ?lts (Suc k') (print_z (lts ! k'))"
          by (subst skirt_between.simps) auto
        have mo: "skirt_marks_only lts out"
          using skirt_marks_only_mark out(2) by (rule skirt_marks_only_trans)
        have new: "b < j \<and> extruders (lts ! b) \<noteq> []"
          if b: "b < length lts" "has_skirt (out ! b)" "\<not> has_skirt (lts ! b)" for b
        proof (cases "b = k'")
          case True
          with k'n k'(3) show ?thesis by simp
        next
          case False
          with b out(3) show ?thesis by (auto simp: nth_list_update)
        qed
        from eq out(1) mo new show ?thesis by auto
      qed
    qed
  qed
qed


lemma skirt_from_total:
  assumes "extruders (lts ! 0) \<noteq> []" "n = length lts" "i < n"
  shows "\<exists>out. skirt_from mlh eps n lts i = Some out \<and> skirt_marks_only lts out \<and>
           has_skirt (out ! i) \<and>
           (\<forall>b. i < b \<and> b < n \<and> has_object (lts ! b) \<longrightarrow> has_skirt (out ! b)) \<and>
           (\<forall>b<n. has_skirt (out ! b) \<and> \<not> has_skirt (lts ! b) \<longrightarrow>
              b = i \<or> has_object (lts ! b) \<or>
              (extruders (lts ! b) \<noteq> [] \<and> (\<exists>c. b < c \<and> c < n \<and> has_object (lts ! c))))"
  using assms
proof (induction mlh eps n lts i rule: skirt_from.induct)
  case (1 mlh eps n lts i)
  let ?lts1 = "lts[i := (lts ! i)\<lparr>has_skirt := True\<rparr>]"
  let ?j = "first_from (\<lambda>j. has_object (?lts1 ! j)) n (Suc i)"
  note n = \<open>n = length lts\<close> and i = \<open>i < n\<close>
  have mo1: "skirt_marks_only lts ?lts1" by (rule skirt_marks_only_mark)
  have mi: "has_skirt (?lts1 ! i)" using i n by simp
  have obj1: "has_object (?lts1 ! b) = has_object (lts ! b)" if "b < n" for b
    using skirt_marks_only_fields(3)[OF mo1] that n by simp
  have new1: "b = i" if "b < n" "has_skirt (?lts1 ! b)" "\<not> has_skirt (lts ! b)" for b
    using that n by (cases "b = i") (simp_all add: nth_list_update)
  have ij: "Suc i \<le> ?j" by (rule first_from_ge)
  have before: "\<not> has_object (lts ! b)" if "i < b" "b < ?j" "b < n" for b
  proof
    assume "has_object (lts ! b)"
    with that(3) have "has_object (?lts1 ! b)" by (simp add: obj1)
    with that(1) have "?j \<le> b" by (intro first_from_le) simp_all
    with that(2) show False by simp
  qed
  show ?case
  proof (cases "?j < n")
    case False
    with i have res: "skirt_from mlh eps n lts i = Some ?lts1"
      by (subst skirt_from.simps) (simp add: Let_def)
    have "\<not> has_object (lts ! b)" if "i < b" "b < n" for b
      using before[of b] that False by simp
    with res mo1 mi new1 show ?thesis by auto
  next
    case True
    have objj: "has_object (lts ! ?j)"
      using first_from_holds[OF True] True by (simp add: obj1)
    have pos: "0 < length lts" using i n by (cases lts) auto
    have first1: "extruders (?lts1 ! 0) \<noteq> []"
      using "1.prems"(1) skirt_marks_only_fields(2)[OF mo1 pos] by simp
    from skirt_between_total[OF first1, of mlh eps ?j "Suc i" "print_z (?lts1 ! i)"]
    obtain lts2 where
      sb: "skirt_between mlh eps ?j ?lts1 (Suc i) (print_z (?lts1 ! i)) = Some lts2"
      and mo12: "skirt_marks_only ?lts1 lts2"
      and new12: "\<forall>b<length ?lts1. has_skirt (lts2 ! b) \<and> \<not> has_skirt (?lts1 ! b) \<longrightarrow>
              b < ?j \<and> extruders (?lts1 ! b) \<noteq> []"
      by blast
    have mo2: "skirt_marks_only lts lts2" using mo1 mo12 by (rule skirt_marks_only_trans)
    have len2: "n = length lts2" using mo2 n by (simp add: skirt_marks_only_length)
    have first2: "extruders (lts2 ! 0) \<noteq> []"
      using "1.prems"(1) skirt_marks_only_fields(2)[OF mo2 pos] by simp
    from "1.IH"[OF i refl refl _ sb first2 len2 True] True obtain out where
      sf: "skirt_from mlh eps n lts2 ?j = Some out"
      and mo2o: "skirt_marks_only lts2 out"
      and mj: "has_skirt (out ! ?j)"
      and objs: "\<forall>b. ?j < b \<and> b < n \<and> has_object (lts2 ! b) \<longrightarrow> has_skirt (out ! b)"
      and new2o: "\<forall>b<n. has_skirt (out ! b) \<and> \<not> has_skirt (lts2 ! b) \<longrightarrow>
              b = ?j \<or> has_object (lts2 ! b) \<or>
              (extruders (lts2 ! b) \<noteq> [] \<and> (\<exists>c. b < c \<and> c < n \<and> has_object (lts2 ! c)))"
      by blast
    from i True sb have res: "skirt_from mlh eps n lts i = skirt_from mlh eps n lts2 ?j"
      by (subst skirt_from.simps) (simp add: Let_def)
    have mo: "skirt_marks_only lts out" using mo2 mo2o by (rule skirt_marks_only_trans)
    have f2: "has_object (lts2 ! b) = has_object (lts ! b)"
        "extruders (lts2 ! b) = extruders (lts ! b)" if "b < n" for b
      using skirt_marks_only_fields(2,3)[OF mo2] that n by simp_all
    have c1: "has_skirt (out ! i)"
    proof -
      from mi mo12 i n have "has_skirt (lts2 ! i)"
        by (intro skirt_marks_only_keeps[OF mo12]) simp_all
      with mo2o i len2 show ?thesis by (intro skirt_marks_only_keeps[OF mo2o]) simp_all
    qed
    have c2: "has_skirt (out ! b)" if "i < b" "b < n" "has_object (lts ! b)" for b
    proof (cases "b = ?j")
      case True
      with mj show ?thesis by simp
    next
      case False
      from before[of b] that have "\<not> b < ?j" by blast
      with False have "?j < b" by simp
      with objs that f2(1) show ?thesis by simp
    qed
    have c3: "b = i \<or> has_object (lts ! b) \<or>
              (extruders (lts ! b) \<noteq> [] \<and> (\<exists>c. b < c \<and> c < n \<and> has_object (lts ! c)))"
      if b: "b < n" "has_skirt (out ! b)" "\<not> has_skirt (lts ! b)" for b
    proof (cases "has_skirt (?lts1 ! b)")
      case True
      with new1 b show ?thesis by blast
    next
      case n1: False
      show ?thesis
      proof (cases "has_skirt (lts2 ! b)")
        case True
        with n1 new12 b n have "b < ?j" "extruders (?lts1 ! b) \<noteq> []" by simp_all
        moreover have "extruders (?lts1 ! b) = extruders (lts ! b)"
          using skirt_marks_only_fields(2)[OF mo1] b n by simp
        ultimately show ?thesis using objj \<open>?j < n\<close> by auto
      next
        case False
        with new2o b have "b = ?j \<or> has_object (lts2 ! b) \<or>
              (extruders (lts2 ! b) \<noteq> [] \<and> (\<exists>c. b < c \<and> c < n \<and> has_object (lts2 ! c)))"
          by simp
        with objj f2 b(1) show ?thesis by auto
      qed
    qed
    from res sf mo c1 c2 c3 show ?thesis by auto
  qed
qed


lemma skirt_covered_mono:
  assumes "skirt_marks_only lts out" "b < length lts" "skirt_covered B lts b"
  shows "skirt_covered B out b"
proof -
  from assms(3) obtain a where a: "a < b" "has_skirt (lts ! a)"
      "print_z (lts ! b) - print_z (lts ! a) \<le> B"
    by (auto simp: skirt_covered_def)
  with assms(2) have al: "a < length lts" by simp
  from skirt_marks_only_keeps[OF assms(1) al a(2)]
    skirt_marks_only_fields(1)[OF assms(1) al] skirt_marks_only_fields(1)[OF assms(1,2)] a
  show ?thesis by (auto simp: skirt_covered_def)
qed

lemma all_skirt_covered_mark:
  assumes "all_skirt_covered B lts" "k < length lts" "k = 0 \<or> skirt_covered B lts k"
  shows "all_skirt_covered B (lts[k := (lts ! k)\<lparr>has_skirt := True\<rparr>])"
  unfolding all_skirt_covered_def
proof (intro allI impI)
  let ?lts = "lts[k := (lts ! k)\<lparr>has_skirt := True\<rparr>]"
  fix b assume b: "b < length ?lts" and m: "0 < b \<and> has_skirt (?lts ! b)"
  have mo: "skirt_marks_only lts ?lts" by (rule skirt_marks_only_mark)
  from b have bl: "b < length lts" by simp
  have "skirt_covered B lts b"
  proof (cases "b = k")
    case True
    with assms(3) m show ?thesis by simp
  next
    case False
    with m bl have "has_skirt (lts ! b)" by simp
    with assms(1) bl m show ?thesis by (simp add: all_skirt_covered_def)
  qed
  with mo bl show "skirt_covered B ?lts b" by (rule skirt_covered_mono)
qed

lemma step_down_found:
  "q \<le> k \<Longrightarrow> extruders (lts ! q) \<noteq> [] \<Longrightarrow>
     \<exists>k'. step_down lts k = Some k' \<and> q \<le> k' \<and> k' \<le> k \<and> extruders (lts ! k') \<noteq> []"
proof (induction k)
  case 0
  then show ?case by simp
next
  case (Suc k)
  show ?case
  proof (cases "extruders (lts ! Suc k) = []")
    case True
    with Suc.prems have "q \<le> k" by (cases "q = Suc k") auto
    from Suc.IH[OF this Suc.prems(2)] True show ?thesis by auto
  next
    case False
    with Suc.prems show ?thesis by auto
  qed
qed

lemma prints_within_marks:
  assumes "skirt_marks_only lts out" "prints_within B lts"
  shows "prints_within B out"
proof -
  from assms(1) have len: "length out = length lts" by (rule skirt_marks_only_length)
  note f = skirt_marks_only_fields[OF assms(1)]
  show ?thesis
    unfolding prints_within_def
  proof (intro allI impI)
    fix b
    assume b: "b < length out"
      and h: "0 < b \<and> (extruders (out ! b) \<noteq> [] \<or> has_object (out ! b)) \<and>
              (\<exists>c. b \<le> c \<and> c < length out \<and> has_object (out ! c))"
    from h len f(3) have "\<exists>c. b \<le> c \<and> c < length lts \<and> has_object (lts ! c)" by auto
    with b h len f(2,3) assms(2) obtain a where
      a: "a < b" "extruders (lts ! a) \<noteq> []" "print_z (lts ! b) - print_z (lts ! a) \<le> B"
      unfolding prints_within_def by (metis (no_types, lifting))
    from a(1) b len have "a < length lts" by simp
    with a b len f(1,2) show "\<exists>a<b. extruders (out ! a) \<noteq> [] \<and> print_z (out ! b) - print_z (out ! a) \<le> B"
      by (intro exI[of _ a]) simp
  qed
qed

lemma sorted_marks:
  assumes "skirt_marks_only lts out" "sorted (map print_z lts)"
  shows "sorted (map print_z out)"
proof -
  from assms(1) have len: "length out = length lts" by (rule skirt_marks_only_length)
  have "map print_z out = map print_z lts"
    using len skirt_marks_only_fields(1)[OF assms(1)] by (intro nth_equalityI) simp_all
  with assms(2) show ?thesis by simp
qed

lemma gap_over_empty:
  assumes srt: "sorted (map print_z lts)" and pw: "prints_within B lts"
    and j: "j < length lts" "has_object (lts ! j)"
  shows "m < q \<Longrightarrow> q \<le> j \<Longrightarrow> \<forall>b. m < b \<and> b < q \<longrightarrow> extruders (lts ! b) = [] \<Longrightarrow>
           print_z (lts ! q) - print_z (lts ! m) \<le> B"
proof (induction "j - q" arbitrary: q)
  case 0
  then have qj: "q = j" by simp
  with j 0 have "0 < q \<and> (extruders (lts ! q) \<noteq> [] \<or> has_object (lts ! q)) \<and>
      (\<exists>c. q \<le> c \<and> c < length lts \<and> has_object (lts ! c))" by auto
  with pw j qj obtain a where a: "a < q" "extruders (lts ! a) \<noteq> []"
      "print_z (lts ! q) - print_z (lts ! a) \<le> B"
    unfolding prints_within_def by (metis (no_types, lifting))
  with 0 have "a \<le> m" by (meson not_le_imp_less)
  with srt 0 j qj have "print_z (lts ! a) \<le> print_z (lts ! m)"
    by (simp add: sorted_iff_nth_mono)
  with a(3) show ?case by simp
next
  case (Suc d)
  then have q: "q < j" by simp
  show ?case
  proof (cases "extruders (lts ! q) \<noteq> [] \<or> has_object (lts ! q)")
    case True
    with Suc.prems j q have "0 < q \<and> (extruders (lts ! q) \<noteq> [] \<or> has_object (lts ! q)) \<and>
      (\<exists>c. q \<le> c \<and> c < length lts \<and> has_object (lts ! c))" by auto
    moreover from q j have "q < length lts" by simp
    ultimately obtain a where a: "a < q" "extruders (lts ! a) \<noteq> []"
      "print_z (lts ! q) - print_z (lts ! a) \<le> B"
      using pw unfolding prints_within_def by (metis (no_types, lifting))
    with Suc.prems have "a \<le> m" by (meson not_le_imp_less)
    with srt Suc.prems q j have "print_z (lts ! a) \<le> print_z (lts ! m)"
      by (simp add: sorted_iff_nth_mono)
    with a(3) show ?thesis by simp
  next
    case False
    then have e: "extruders (lts ! q) = []" by simp
    have d: "d = j - Suc q" using Suc.hyps(2) by simp
    have "\<forall>b. m < b \<and> b < Suc q \<longrightarrow> extruders (lts ! b) = []"
      using Suc.prems(3) e by (auto simp: less_Suc_eq)
    from Suc.hyps(1)[OF d _ _ this] Suc.prems(1) q
    have "print_z (lts ! Suc q) - print_z (lts ! m) \<le> B" by simp
    moreover from srt q j have "print_z (lts ! q) \<le> print_z (lts ! Suc q)"
      by (simp add: sorted_iff_nth_mono)
    ultimately show ?thesis by simp
  qed
qed


lemma skirt_between_gap:
  assumes "sorted (map print_z lts)"
    and "prints_within (mlh + eps) lts"
    and "all_skirt_covered (mlh + eps) lts"
    and "k \<le> j" "j < length lts" "has_object (lts ! j)"
    and "\<exists>m<k. has_skirt (lts ! m) \<and> print_z (lts ! m) = last_z \<and>
               (\<forall>b. m < b \<and> b < length lts \<longrightarrow> \<not> has_skirt (lts ! b))"
    and "print_z (lts ! k) - last_z \<le> mlh + eps"
  shows "\<exists>out. skirt_between mlh eps j lts k last_z = Some out \<and> skirt_marks_only lts out \<and>
           all_skirt_covered (mlh + eps) out \<and>
           (\<forall>b. j \<le> b \<and> b < length lts \<longrightarrow> \<not> has_skirt (out ! b)) \<and>
           skirt_covered (mlh + eps) out j"
  using assms
proof (induction mlh eps j lts k last_z rule: skirt_between.induct)
  case (1 mlh eps j lts k last_z)
  note srt = "1.prems"(1) and pw = "1.prems"(2) and cov = "1.prems"(3)
    and kj = "1.prems"(4,5) and oj = "1.prems"(6) and last = "1.prems"(7) and near = "1.prems"(8)
  from last obtain m where m: "m < k" "has_skirt (lts ! m)" "print_z (lts ! m) = last_z"
    and top: "\<forall>b. m < b \<and> b < length lts \<longrightarrow> \<not> has_skirt (lts ! b)"
    by blast
  show ?case
  proof (cases "k < j \<and> j < length lts")
    case False
    with kj have "k = j" by simp
    from False have res: "skirt_between mlh eps j lts k last_z = Some lts"
      by (subst skirt_between.simps) auto
    from m near \<open>k = j\<close> have "skirt_covered (mlh + eps) lts j"
      by (auto simp: skirt_covered_def)
    moreover from top m \<open>k = j\<close> have "\<forall>b. j \<le> b \<and> b < length lts \<longrightarrow> \<not> has_skirt (lts ! b)"
      by auto
    ultimately show ?thesis using res cov by (simp add: skirt_marks_only_refl)
  next
    case True
    show ?thesis
    proof (cases "print_z (lts ! Suc k) - last_z > mlh + eps")
      case notfar: False
      from True notfar have res: "skirt_between mlh eps j lts k last_z
          = skirt_between mlh eps j lts (Suc k) last_z"
        by (subst skirt_between.simps) auto
      have last': "\<exists>m<Suc k. has_skirt (lts ! m) \<and> print_z (lts ! m) = last_z \<and>
               (\<forall>b. m < b \<and> b < length lts \<longrightarrow> \<not> has_skirt (lts ! b))"
        using m top less_SucI by blast
      have near': "print_z (lts ! Suc k) - last_z \<le> mlh + eps" using notfar by simp
      from True have kj': "Suc k \<le> j" by simp
      from "1.IH"(2)[OF True notfar srt pw cov kj' kj(2) oj last' near'] res
      show ?thesis by simp
    next
      case far: True
      from True have kl: "k < length lts" and skj: "Suc k \<le> j" by simp_all
      have "\<exists>q. m < q \<and> q \<le> k \<and> extruders (lts ! q) \<noteq> []"
      proof (rule ccontr)
        assume "\<not> (\<exists>q. m < q \<and> q \<le> k \<and> extruders (lts ! q) \<noteq> [])"
        then have "\<forall>b. m < b \<and> b < Suc k \<longrightarrow> extruders (lts ! b) = []"
          by (auto simp: less_Suc_eq_le)
        from gap_over_empty[OF srt pw kj(2) oj _ skj this] m(1)
        have "print_z (lts ! Suc k) - print_z (lts ! m) \<le> mlh + eps" by simp
        with far m(3) show False by simp
      qed
      then obtain q where q: "m < q" "q \<le> k" "extruders (lts ! q) \<noteq> []" by blast
      from step_down_found[OF q(2,3)] obtain k' where
        sd: "step_down lts k = Some k'" and k': "q \<le> k'" "k' \<le> k" "extruders (lts ! k') \<noteq> []"
        by blast
      from q(1) k' have mk: "m < k'" by simp
      from k' kl have k'l: "k' < length lts" by simp
      from top mk k'l have un: "\<not> has_skirt (lts ! k')" by simp
      let ?lts = "lts[k' := (lts ! k')\<lparr>has_skirt := True\<rparr>]"
      have mo: "skirt_marks_only lts ?lts" by (rule skirt_marks_only_mark)
      from True far sd un have res: "skirt_between mlh eps j lts k last_z
          = skirt_between mlh eps j ?lts (Suc k') (print_z (lts ! k'))"
        by (subst skirt_between.simps) auto
      have srt': "sorted (map print_z ?lts)" using mo srt by (rule sorted_marks)
      have pw': "prints_within (mlh + eps) ?lts" using mo pw by (rule prints_within_marks)
      from srt k' kl have "print_z (lts ! k') \<le> print_z (lts ! k)"
        by (simp add: sorted_iff_nth_mono)
      with near m(3) have "print_z (lts ! k') - print_z (lts ! m) \<le> mlh + eps" by simp
      with m mk have "skirt_covered (mlh + eps) lts k'"
        by (auto simp: skirt_covered_def)
      then have cov': "all_skirt_covered (mlh + eps) ?lts"
        using cov k'l by (intro all_skirt_covered_mark) simp_all
      from k' skj have kj': "Suc k' \<le> j" "j < length ?lts" using kj(2) by simp_all
      have oj': "has_object (?lts ! j)"
        using oj kj(2) skirt_marks_only_fields(3)[OF mo kj(2)] by simp
      have last': "\<exists>m<Suc k'. has_skirt (?lts ! m) \<and> print_z (?lts ! m) = print_z (lts ! k') \<and>
               (\<forall>b. m < b \<and> b < length ?lts \<longrightarrow> \<not> has_skirt (?lts ! b))"
      proof (intro exI[of _ k'] conjI allI impI)
        show "k' < Suc k'" by simp
        show "has_skirt (?lts ! k')" using k'l by simp
        show "print_z (?lts ! k') = print_z (lts ! k')" using k'l by simp
        fix b assume "k' < b \<and> b < length ?lts"
        with top mk show "\<not> has_skirt (?lts ! b)" by (auto simp: nth_list_update)
      qed
      have "\<forall>b. k' < b \<and> b < Suc k' \<longrightarrow> extruders (lts ! b) = []" by auto
      from gap_over_empty[OF srt pw kj(2) oj _ kj'(1) this]
      have "print_z (lts ! Suc k') - print_z (lts ! k') \<le> mlh + eps" by simp
      moreover from kj' have "Suc k' < length lts" by simp
      ultimately have near': "print_z (?lts ! Suc k') - print_z (lts ! k') \<le> mlh + eps"
        by simp
      from "1.IH"(1)[OF True far sd un srt' pw' cov' kj' oj' last' near']
      obtain out where out: "skirt_between mlh eps j ?lts (Suc k') (print_z (lts ! k')) = Some out"
        "skirt_marks_only ?lts out" "all_skirt_covered (mlh + eps) out"
        "\<forall>b. j \<le> b \<and> b < length ?lts \<longrightarrow> \<not> has_skirt (out ! b)"
        "skirt_covered (mlh + eps) out j"
        by blast
      from mo out(2) have "skirt_marks_only lts out" by (rule skirt_marks_only_trans)
      with res out show ?thesis by simp
    qed
  qed
qed

lemma skirt_from_gap:
  assumes "sorted (map print_z lts)"
    and "prints_within (mlh + eps) lts"
    and "all_skirt_covered (mlh + eps) lts"
    and "\<forall>b. i \<le> b \<and> b < length lts \<longrightarrow> \<not> has_skirt (lts ! b)"
    and "n = length lts" "i < n"
    and "i = 0 \<or> skirt_covered (mlh + eps) lts i"
  shows "\<exists>out. skirt_from mlh eps n lts i = Some out \<and> skirt_marks_only lts out \<and>
           all_skirt_covered (mlh + eps) out"
  using assms
proof (induction mlh eps n lts i rule: skirt_from.induct)
  case (1 mlh eps n lts i)
  note srt = "1.prems"(1) and pw = "1.prems"(2) and cov = "1.prems"(3) and top = "1.prems"(4)
    and n = "1.prems"(5) and i = "1.prems"(6) and ci = "1.prems"(7)
  let ?lts1 = "lts[i := (lts ! i)\<lparr>has_skirt := True\<rparr>]"
  let ?j = "first_from (\<lambda>j. has_object (?lts1 ! j)) n (Suc i)"
  have mo1: "skirt_marks_only lts ?lts1" by (rule skirt_marks_only_mark)
  have cov1: "all_skirt_covered (mlh + eps) ?lts1"
    using cov i n ci by (intro all_skirt_covered_mark) simp_all
  show ?case
  proof (cases "?j < n")
    case False
    with i have "skirt_from mlh eps n lts i = Some ?lts1"
      by (subst skirt_from.simps) (simp add: Let_def)
    with mo1 cov1 show ?thesis by simp
  next
    case True
    have ij: "Suc i \<le> ?j" by (rule first_from_ge)
    have oj: "has_object (?lts1 ! ?j)" using True by (rule first_from_holds)
    have srt1: "sorted (map print_z ?lts1)" using mo1 srt by (rule sorted_marks)
    have pw1: "prints_within (mlh + eps) ?lts1" using mo1 pw by (rule prints_within_marks)
    have jl: "?j < length ?lts1" using True n by simp
    have last1: "\<exists>m<Suc i. has_skirt (?lts1 ! m) \<and> print_z (?lts1 ! m) = print_z (?lts1 ! i) \<and>
               (\<forall>b. m < b \<and> b < length ?lts1 \<longrightarrow> \<not> has_skirt (?lts1 ! b))"
    proof (intro exI[of _ i] conjI allI impI)
      show "i < Suc i" by simp
      show "has_skirt (?lts1 ! i)" using i n by simp
      show "print_z (?lts1 ! i) = print_z (?lts1 ! i)" by simp
      fix b assume "i < b \<and> b < length ?lts1"
      with top show "\<not> has_skirt (?lts1 ! b)" by (auto simp: nth_list_update)
    qed
    have "\<forall>b. i < b \<and> b < Suc i \<longrightarrow> extruders (?lts1 ! b) = []" by auto
    from gap_over_empty[OF srt1 pw1 jl oj _ ij this]
    have near1: "print_z (?lts1 ! Suc i) - print_z (?lts1 ! i) \<le> mlh + eps" by simp
    from skirt_between_gap[OF srt1 pw1 cov1 ij jl oj last1 near1]
    obtain lts2 where
      sb: "skirt_between mlh eps ?j ?lts1 (Suc i) (print_z (?lts1 ! i)) = Some lts2"
      and mo12: "skirt_marks_only ?lts1 lts2"
      and cov2: "all_skirt_covered (mlh + eps) lts2"
      and top2: "\<forall>b. ?j \<le> b \<and> b < length ?lts1 \<longrightarrow> \<not> has_skirt (lts2 ! b)"
      and cj: "skirt_covered (mlh + eps) lts2 ?j"
      by blast
    have mo2: "skirt_marks_only lts lts2" using mo1 mo12 by (rule skirt_marks_only_trans)
    have len2: "n = length lts2" using mo2 n by (simp add: skirt_marks_only_length)
    have srt2: "sorted (map print_z lts2)" using mo2 srt by (rule sorted_marks)
    have pw2: "prints_within (mlh + eps) lts2" using mo2 pw by (rule prints_within_marks)
    have top2': "\<forall>b. ?j \<le> b \<and> b < length lts2 \<longrightarrow> \<not> has_skirt (lts2 ! b)"
      using top2 len2 n by simp
    have cj': "?j = 0 \<or> skirt_covered (mlh + eps) lts2 ?j" using cj by simp
    from "1.IH"[OF i refl refl _ sb srt2 pw2 cov2 top2' len2 True cj'] True
    obtain out where sf: "skirt_from mlh eps n lts2 ?j = Some out"
      and mo2o: "skirt_marks_only lts2 out" and covo: "all_skirt_covered (mlh + eps) out"
      by blast
    from i True sb have res: "skirt_from mlh eps n lts i = skirt_from mlh eps n lts2 ?j"
      by (subst skirt_from.simps) (simp add: Let_def)
    from mo2 mo2o have "skirt_marks_only lts out" by (rule skirt_marks_only_trans)
    with res sf covo show ?thesis by simp
  qed
qed

lemma consecutive_skirt_gap:
  assumes cov: "all_skirt_covered B out"
    and srt: "sorted (map print_z out)"
    and ab: "a < b" "b < length out" "has_skirt (out ! a)" "has_skirt (out ! b)"
    and between: "\<forall>c. a < c \<and> c < b \<longrightarrow> \<not> has_skirt (out ! c)"
  shows "print_z (out ! b) - print_z (out ! a) \<le> B"
proof -
  from cov ab have "skirt_covered B out b" by (simp add: all_skirt_covered_def)
  then obtain a' where a': "a' < b" "has_skirt (out ! a')"
      "print_z (out ! b) - print_z (out ! a') \<le> B"
    by (auto simp: skirt_covered_def)
  with between have "a' \<le> a" by (meson not_le_imp_less)
  with srt ab have "print_z (out ! a') \<le> print_z (out ! a)"
    by (simp add: sorted_iff_nth_mono)
  with a'(3) show ?thesis by simp
qed

text \<open>
  Claim C9, as amended. With an empty extruder list on the first layer the layers are
  returned as they are. Otherwise the function returns, changes nothing but
  \<open>has_skirt\<close> marks, and marks the first layer and every layer that prints an
  object; any other layer it marks has extruders and lies below an object layer.
  When no layer was marked before, the layers are sorted by height, and every layer
  up to the last object layer that has extruders or prints an object lies at most
  \<open>max_layer_height + eps\<close> above a layer with extruders below it, two consecutive
  skirt layers are at most \<open>max_layer_height + eps\<close> apart.
\<close>

theorem mark_skirt_layers_marks:
  "(m_layer_tools \<noteq> [] \<and> extruders (hd m_layer_tools) = [] \<longrightarrow>
      mark_skirt_layers max_layer_height eps m_layer_tools = Some m_layer_tools) \<and>
   (m_layer_tools \<noteq> [] \<and> extruders (hd m_layer_tools) \<noteq> [] \<longrightarrow>
      (\<exists>out. mark_skirt_layers max_layer_height eps m_layer_tools = Some out \<and>
         skirt_marks_only m_layer_tools out \<and>
         has_skirt (out ! 0) \<and>
         (\<forall>b<length out. has_object (out ! b) \<longrightarrow> has_skirt (out ! b)) \<and>
         (\<forall>b<length out. has_skirt (out ! b) \<and> \<not> has_skirt (m_layer_tools ! b) \<longrightarrow>
            b = 0 \<or> has_object (out ! b) \<or>
            (extruders (out ! b) \<noteq> [] \<and> (\<exists>c. b < c \<and> c < length out \<and> has_object (out ! c)))) \<and>
         ((\<forall>lt\<in>set m_layer_tools. \<not> has_skirt lt) \<and>
          sorted (map print_z m_layer_tools) \<and>
          prints_within (max_layer_height + eps) m_layer_tools \<longrightarrow>
          (\<forall>a b. a < b \<and> b < length out \<and> has_skirt (out ! a) \<and> has_skirt (out ! b) \<and>
                  (\<forall>c. a < c \<and> c < b \<longrightarrow> \<not> has_skirt (out ! c)) \<longrightarrow>
             print_z (out ! b) - print_z (out ! a) \<le> max_layer_height + eps))))"
proof (intro conjI impI)
  assume "m_layer_tools \<noteq> [] \<and> extruders (hd m_layer_tools) = []"
  then show "mark_skirt_layers max_layer_height eps m_layer_tools = Some m_layer_tools"
    by (simp add: mark_skirt_layers_def)
next
  let ?n = "length m_layer_tools"
  assume a: "m_layer_tools \<noteq> [] \<and> extruders (hd m_layer_tools) \<noteq> []"
  then have n0: "0 < ?n" and first: "extruders (m_layer_tools ! 0) \<noteq> []"
    by (auto simp: hd_conv_nth)
  from a have run: "mark_skirt_layers max_layer_height eps m_layer_tools
      = skirt_from max_layer_height eps ?n m_layer_tools 0"
    by (simp add: mark_skirt_layers_def)
  from skirt_from_total[OF first refl n0, of max_layer_height eps] obtain out where
    sf: "skirt_from max_layer_height eps ?n m_layer_tools 0 = Some out"
    and mo: "skirt_marks_only m_layer_tools out"
    and m0: "has_skirt (out ! 0)"
    and objs: "\<forall>b. 0 < b \<and> b < ?n \<and> has_object (m_layer_tools ! b) \<longrightarrow> has_skirt (out ! b)"
    and new: "\<forall>b<?n. has_skirt (out ! b) \<and> \<not> has_skirt (m_layer_tools ! b) \<longrightarrow>
              b = 0 \<or> has_object (m_layer_tools ! b) \<or>
              (extruders (m_layer_tools ! b) \<noteq> [] \<and>
               (\<exists>c. b < c \<and> c < ?n \<and> has_object (m_layer_tools ! c)))"
    by blast
  have len: "length out = ?n" using mo by (rule skirt_marks_only_length)
  note fld = skirt_marks_only_fields[OF mo]
  have p1: "\<forall>b<length out. has_object (out ! b) \<longrightarrow> has_skirt (out ! b)"
  proof (intro allI impI)
    fix b assume "b < length out" "has_object (out ! b)"
    with len fld(3) objs m0 show "has_skirt (out ! b)" by (cases "b = 0") auto
  qed
  have p2: "\<forall>b<length out. has_skirt (out ! b) \<and> \<not> has_skirt (m_layer_tools ! b) \<longrightarrow>
            b = 0 \<or> has_object (out ! b) \<or>
            (extruders (out ! b) \<noteq> [] \<and> (\<exists>c. b < c \<and> c < length out \<and> has_object (out ! c)))"
  proof (intro allI impI)
    fix b assume b: "b < length out" "has_skirt (out ! b) \<and> \<not> has_skirt (m_layer_tools ! b)"
    with new len have "b = 0 \<or> has_object (m_layer_tools ! b) \<or>
              (extruders (m_layer_tools ! b) \<noteq> [] \<and>
               (\<exists>c. b < c \<and> c < ?n \<and> has_object (m_layer_tools ! c)))" by simp
    with b(1) len fld(2,3) show "b = 0 \<or> has_object (out ! b) \<or>
            (extruders (out ! b) \<noteq> [] \<and> (\<exists>c. b < c \<and> c < length out \<and> has_object (out ! c)))"
      by auto
  qed
  have p3: "\<forall>a b. a < b \<and> b < length out \<and> has_skirt (out ! a) \<and> has_skirt (out ! b) \<and>
                  (\<forall>c. a < c \<and> c < b \<longrightarrow> \<not> has_skirt (out ! c)) \<longrightarrow>
             print_z (out ! b) - print_z (out ! a) \<le> max_layer_height + eps"
    if h: "(\<forall>lt\<in>set m_layer_tools. \<not> has_skirt lt) \<and>
          sorted (map print_z m_layer_tools) \<and>
          prints_within (max_layer_height + eps) m_layer_tools"
  proof -
    from h have un: "\<forall>b. 0 \<le> b \<and> b < ?n \<longrightarrow> \<not> has_skirt (m_layer_tools ! b)"
      by simp
    from h have srt0: "sorted (map print_z m_layer_tools)"
      and pw: "prints_within (max_layer_height + eps) m_layer_tools"
      by simp_all
    from un have cov: "all_skirt_covered (max_layer_height + eps) m_layer_tools"
      by (simp add: all_skirt_covered_def)
    from skirt_from_gap[OF srt0 pw cov un refl n0] sf
    have covo: "all_skirt_covered (max_layer_height + eps) out" by auto
    have srt: "sorted (map print_z out)" using mo srt0 by (rule sorted_marks)
    show ?thesis
      using consecutive_skirt_gap[OF covo srt] by blast
  qed
  from run sf mo m0 p1 p2 p3
  show "\<exists>out. mark_skirt_layers max_layer_height eps m_layer_tools = Some out \<and>
         skirt_marks_only m_layer_tools out \<and>
         has_skirt (out ! 0) \<and>
         (\<forall>b<length out. has_object (out ! b) \<longrightarrow> has_skirt (out ! b)) \<and>
         (\<forall>b<length out. has_skirt (out ! b) \<and> \<not> has_skirt (m_layer_tools ! b) \<longrightarrow>
            b = 0 \<or> has_object (out ! b) \<or>
            (extruders (out ! b) \<noteq> [] \<and> (\<exists>c. b < c \<and> c < length out \<and> has_object (out ! c)))) \<and>
         ((\<forall>lt\<in>set m_layer_tools. \<not> has_skirt lt) \<and>
          sorted (map print_z m_layer_tools) \<and>
          prints_within (max_layer_height + eps) m_layer_tools \<longrightarrow>
          (\<forall>a b. a < b \<and> b < length out \<and> has_skirt (out ! a) \<and> has_skirt (out ! b) \<and>
                  (\<forall>c. a < c \<and> c < b \<longrightarrow> \<not> has_skirt (out ! c)) \<longrightarrow>
             print_z (out ! b) - print_z (out ! a) \<le> max_layer_height + eps))"
    by (intro exI[of _ out]) simp
qed


theorem mark_skirt_layers_marks_witness:
  "mark_skirt_layers (3 / 10) (1 / 10000)
     [(new_LayerTools (2 / 10))\<lparr>has_object := True, extruders := [0]\<rparr>,
      (new_LayerTools (4 / 10))\<lparr>extruders := [1]\<rparr>,
      new_LayerTools (5 / 10),
      new_LayerTools (6 / 10),
      (new_LayerTools (7 / 10))\<lparr>has_object := True, extruders := [0]\<rparr>,
      (new_LayerTools (9 / 10))\<lparr>extruders := [1]\<rparr>]
   = Some
     [(new_LayerTools (2 / 10))\<lparr>has_object := True, extruders := [0], has_skirt := True\<rparr>,
      (new_LayerTools (4 / 10))\<lparr>extruders := [1], has_skirt := True\<rparr>,
      new_LayerTools (5 / 10),
      new_LayerTools (6 / 10),
      (new_LayerTools (7 / 10))\<lparr>has_object := True, extruders := [0], has_skirt := True\<rparr>,
      (new_LayerTools (9 / 10))\<lparr>extruders := [1]\<rparr>] \<and>
   (7 / 10 - 4 / 10 :: rat) \<le> 3 / 10 + 1 / 10000"
proof -
  let ?L = "[(new_LayerTools (2 / 10))\<lparr>has_object := True, extruders := [0]\<rparr>,
      (new_LayerTools (4 / 10))\<lparr>extruders := [1]\<rparr>,
      new_LayerTools (5 / 10),
      new_LayerTools (6 / 10),
      (new_LayerTools (7 / 10))\<lparr>has_object := True, extruders := [0]\<rparr>,
      (new_LayerTools (9 / 10))\<lparr>extruders := [1]\<rparr>]"
  let ?O = "[(new_LayerTools (2 / 10))\<lparr>has_object := True, extruders := [0], has_skirt := True\<rparr>,
      (new_LayerTools (4 / 10))\<lparr>extruders := [1], has_skirt := True\<rparr>,
      new_LayerTools (5 / 10),
      new_LayerTools (6 / 10),
      (new_LayerTools (7 / 10))\<lparr>has_object := True, extruders := [0], has_skirt := True\<rparr>,
      (new_LayerTools (9 / 10))\<lparr>extruders := [1]\<rparr>]"
  have ev: "mark_skirt_layers (3 / 10) (1 / 10000) ?L = Some ?O" by code_simp
  have pre: "?L \<noteq> [] \<and> extruders (hd ?L) \<noteq> []" by simp
  have pw: "prints_within (3 / 10 + 1 / 10000) ?L"
    unfolding prints_within_def
  proof (intro allI impI)
    fix b
    assume "b < length ?L"
      and h: "0 < b \<and> (extruders (?L ! b) \<noteq> [] \<or> has_object (?L ! b)) \<and>
              (\<exists>c. b \<le> c \<and> c < length ?L \<and> has_object (?L ! c))"
    then have "b \<in> {1, 2, 3, 4, 5}" by auto
    then consider "b = 1" | "b = 2" | "b = 3" | "b = 4" | "b = 5" by auto
    then show "\<exists>a<b. extruders (?L ! a) \<noteq> [] \<and> print_z (?L ! b) - print_z (?L ! a)
                 \<le> 3 / 10 + 1 / 10000"
    proof cases
      case 1
      then show ?thesis by (intro exI[of _ 0]) (simp add: new_LayerTools_def)
    next
      case 2
      with h show ?thesis by (simp add: new_LayerTools_def)
    next
      case 3
      with h show ?thesis by (simp add: new_LayerTools_def)
    next
      case 4
      then show ?thesis by (intro exI[of _ 1]) (simp add: new_LayerTools_def)
    next
      case 5
      from h obtain c where "b \<le> c" "c < length ?L" "has_object (?L ! c)" by blast
      with 5 show ?thesis by (simp add: new_LayerTools_def)
    qed
  qed
  have hyp: "(\<forall>lt\<in>set ?L. \<not> has_skirt lt) \<and> sorted (map print_z ?L) \<and>
             prints_within (3 / 10 + 1 / 10000) ?L"
    using pw by (simp add: new_LayerTools_def)
  from mark_skirt_layers_marks[of ?L "3 / 10" "1 / 10000"] pre hyp ev
  have gap: "\<forall>a b. a < b \<and> b < length ?O \<and> has_skirt (?O ! a) \<and> has_skirt (?O ! b) \<and>
                  (\<forall>c. a < c \<and> c < b \<longrightarrow> \<not> has_skirt (?O ! c)) \<longrightarrow>
             print_z (?O ! b) - print_z (?O ! a) \<le> 3 / 10 + 1 / 10000"
    by (metis (no_types, lifting) option.inject)
  have "(1::nat) < 4 \<and> 4 < length ?O \<and> has_skirt (?O ! 1) \<and> has_skirt (?O ! 4) \<and>
                  (\<forall>c. 1 < c \<and> c < 4 \<longrightarrow> \<not> has_skirt (?O ! c))"
  proof (intro conjI allI impI)
    fix c :: nat assume "1 < c \<and> c < 4"
    then have "c = 2 \<or> c = 3" by auto
    then show "\<not> has_skirt (?O ! c)" by (auto simp: new_LayerTools_def)
  qed (simp_all add: new_LayerTools_def)
  with gap have "print_z (?O ! 4) - print_z (?O ! 1) \<le> 3 / 10 + 1 / 10000" by blast
  then have "(7 / 10 - 4 / 10 :: rat) \<le> 3 / 10 + 1 / 10000"
    by (simp add: new_LayerTools_def)
  with ev show ?thesis by blast
qed

text \<open>
  Claim C9 as stated fails. A first object layer, three layers without extrusions and
  a second object layer, each 0.2 above the one before, with a maximum layer height
  of 0.3: the search for a layer to mark between the two steps down over the empty
  layers onto the first layer, which is marked already, and stops. The two object
  layers are the only skirt layers, 0.8 apart. With layers at 0.2, 0.35 and 0.50005
  no intermediate layer is marked, as 0.30005 is within \<open>max_layer_height + eps\<close>, though
  above the maximum layer height. And an object layer without extruders, 0.7 above
  the first layer, is marked as every object layer is.
\<close>

theorem mark_skirt_layers_gap_counterexample:
  "map_option (map has_skirt) (mark_skirt_layers (3 / 10) (1 / 10000)
     [(new_LayerTools (2 / 10))\<lparr>has_object := True, extruders := [0]\<rparr>,
      new_LayerTools (4 / 10), new_LayerTools (6 / 10), new_LayerTools (8 / 10),
      (new_LayerTools 1)\<lparr>has_object := True, extruders := [0]\<rparr>])
   = Some [True, False, False, False, True] \<and>
   (1 - 2 / 10 :: rat) > 3 / 10 + 1 / 10000 \<and>
   map_option (map has_skirt) (mark_skirt_layers (3 / 10) (1 / 10000)
     [(new_LayerTools (2 / 10))\<lparr>has_object := True, extruders := [0]\<rparr>,
      (new_LayerTools (7 / 20))\<lparr>extruders := [1]\<rparr>,
      (new_LayerTools (10001 / 20000))\<lparr>has_object := True, extruders := [0]\<rparr>])
   = Some [True, False, True] \<and>
   (10001 / 20000 - 2 / 10 :: rat) > 3 / 10 \<and>
   map_option (map has_skirt) (mark_skirt_layers (3 / 10) (1 / 10000)
     [(new_LayerTools (2 / 10))\<lparr>has_object := True, extruders := [0]\<rparr>,
      (new_LayerTools (9 / 10))\<lparr>has_object := True\<rparr>])
   = Some [True, True] \<and>
   (9 / 10 - 2 / 10 :: rat) > 3 / 10 + 1 / 10000"
  by code_simp
section \<open>The TPU rule and the capacities of the automatic map\<close>

lemma sort_remove_duplicates_id:
  "sorted xs \<Longrightarrow> distinct xs \<Longrightarrow> sort_remove_duplicates xs = xs"
  by (simp add: sort_remove_duplicates_def sorted_sort_id remdups_adj_distinct)

lemma used_filaments_sorted_distinct:
  "sorted (collect_sorted_used_filaments ls)" "distinct (collect_sorted_used_filaments ls)"
  by (simp_all add: collect_sorted_used_filaments_def sort_remove_duplicates_sorted
      sort_remove_duplicates_distinct)

lemma get_filament_by_type_filter:
  assumes "sorted used" "distinct used"
  shows "get_filament_by_type used config type = filter (\<lambda>f. filament_type config f = type) used"
  unfolding get_filament_by_type_def
  using assms by (intro sort_remove_duplicates_id) (simp_all add: sorted_filter[where f = id, simplified])

lemma check_tpu_loop_no_tpu:
  "filter (\<lambda>f. filament_type config f = ''TPU'') used = [] \<Longrightarrow>
     check_tpu_loop config maps used chk = Some chk"
  by (induction used) (auto split: if_splits)

lemma check_tpu_loop_one_tpu:
  "filter (\<lambda>f. filament_type config f = ''TPU'') used = [t] \<Longrightarrow>
     check_tpu_loop config maps used (- 1) = Some (maps ! t)"
proof (induction used)
  case Nil
  then show ?case by simp
next
  case (Cons f used)
  show ?case
  proof (cases "filament_type config f = ''TPU''")
    case True
    with Cons.prems have "f = t" "filter (\<lambda>f. filament_type config f = ''TPU'') used = []"
      by simp_all
    with True show ?thesis by (simp add: check_tpu_loop_no_tpu)
  next
    case False
    with Cons show ?thesis by simp
  qed
qed

lemma filter_two_elements:
  assumes "a \<in> set xs" "b \<in> set xs" "a \<noteq> b" "P a" "P b"
  shows "1 < length (filter P xs)"
proof -
  have "{a, b} \<subseteq> set (filter P xs)" using assms by simp
  then have "card {a, b} \<le> card (set (filter P xs))" by (intro card_mono) simp_all
  also have "\<dots> \<le> length (filter P xs)" by (rule card_length)
  finally show ?thesis using assms(3) by simp
qed

lemma check_tpu_group_misplaced:
  assumes one: "filter (\<lambda>f. filament_type config f = ''TPU'') used = [t]"
    and mis: "tpu_misplaced config used maps"
    and valid: "maps ! t \<noteq> - 1"
  shows "\<not> check_tpu_group used maps config"
proof -
  from one have "t \<in> set (filter (\<lambda>f. filament_type config f = ''TPU'') used)" by simp
  then have t: "t \<in> set used" "filament_type config t = ''TPU''" by simp_all
  have only: "t' = t" if "t' \<in> set used" "filament_type config t' = ''TPU''" for t'
  proof -
    from that have "t' \<in> set (filter (\<lambda>f. filament_type config f = ''TPU'') used)" by simp
    with one show ?thesis by simp
  qed
  from mis only have "maps ! t \<noteq> master_extruder_id config - 1 \<or>
      (\<exists>f\<in>set used. f \<noteq> t \<and> maps ! f = maps ! t)"
    by (auto simp: tpu_misplaced_def list_ex_iff)
  then have "maps ! t \<noteq> master_extruder_id config - 1 \<or>
      1 < length (filter (\<lambda>f. maps ! f = maps ! t) used)"
    using filter_two_elements[OF t(1), of _ "\<lambda>f. maps ! f = maps ! t"] by auto
  with valid show ?thesis
    by (simp add: check_tpu_group_def Let_def check_tpu_loop_one_tpu[OF one])
qed


lemma filter_eq_singleton:
  "distinct xs \<Longrightarrow> x \<in> set xs \<Longrightarrow> filter (\<lambda>f. f = x) xs = [x]"
proof (induction xs)
  case Nil
  then show ?case by simp
next
  case (Cons a xs)
  show ?case
  proof (cases "a = x")
    case True
    with Cons.prems have "x \<notin> set xs" by simp
    then have "filter (\<lambda>f. f = x) xs = []" by (auto simp: filter_empty_conv)
    with True show ?thesis by simp
  next
    case False
    with Cons show ?thesis by simp
  qed
qed

lemma get_physical_unprintables_two_tpu:
  "1 < length (get_filament_by_type used config ''TPU'') \<Longrightarrow>
     get_physical_unprintables used config
       = Inl (RuntimeError ''Only supports up to one TPU filament.'')"
  by (simp add: get_physical_unprintables_def Let_def)

lemma get_physical_unprintables_one_tpu:
  assumes "get_filament_by_type used config ''TPU'' = [t]"
    and "master_extruder_id config \<in> {1, 2}" "1 < nozzle_count config"
  shows "\<exists>physical. get_physical_unprintables used config = Inr physical"
  using assms by (auto simp: get_physical_unprintables_def Let_def)

lemma checked_filament_maps_auto:
  "filament_map_mode print = fmmAuto \<Longrightarrow> checked_filament_maps print recommended = recommended"
  by (simp add: checked_filament_maps_def comp_def)

lemma recommended_tpu_path:
  assumes "nozzle_count config = 2" "layer_filaments \<noteq> []"
    and "get_filament_by_type (collect_sorted_used_filaments layer_filaments) config ''TPU'' \<noteq> []"
  shows "get_recommended_filament_maps optimizer layer_filaments config physical geometric =
     map (\<lambda>fidx. if fidx \<in> set (get_filament_by_type
                                   (collect_sorted_used_filaments layer_filaments) config ''TPU'')
                 then master_extruder_id config - 1
                 else 1 - (master_extruder_id config - 1)) [0..<filament_count config]"
  using assms by (simp add: get_recommended_filament_maps_def Let_def)

lemma recommended_no_tpu_path:
  assumes "nozzle_count config = 2" "layer_filaments \<noteq> []"
    and "get_filament_by_type (collect_sorted_used_filaments layer_filaments) config ''TPU'' = []"
  shows "get_recommended_filament_maps optimizer layer_filaments config physical geometric =
     optimizer \<lparr> max_group_size = group_sizes (extruder_ams_counts config),
                 total_filament_num = filament_count config,
                 ctx_master_extruder_id = master_extruder_id config - 1,
                 physical_unprintables = physical,
                 geometric_unprintables = geometric \<rparr>
       layer_filaments (collect_sorted_used_filaments layer_filaments)"
  using assms by (simp add: get_recommended_filament_maps_def Let_def)

lemma collect_sorted_used_filaments_Nil: "collect_sorted_used_filaments [] = []"
  by (simp add: collect_sorted_used_filaments_def sort_remove_duplicates_def)

text \<open>
  Claim C2, as amended. Two used TPU filaments always end the driver with the error
  "Only supports up to one TPU filament". On a printer with several nozzles, unless
  the print is by object with several objects, a map (the manual one, or the
  recommended one in automatic mode) that puts the one used TPU filament on another
  extruder than the master one, or another used filament on its extruder, ends the
  driver with the grouping error of the mode. On a printer with two nozzles the
  recommended map puts the one used TPU filament on the master extruder and every
  other filament on the other extruder, and the driver in automatic mode accepts it.
\<close>

theorem driver_tpu_rule:
  "(let used = collect_sorted_used_filaments layer_filaments;
        tpu = filter (\<lambda>f. filament_type config f = ''TPU'') used;
        master = master_extruder_id config - 1;
        recommended = get_recommended_filament_maps optimizer layer_filaments config
                        (projr (get_physical_unprintables used config)) geometric;
        maps = checked_filament_maps print recommended;
        result = driver_filament_maps optimizer config print geometric layer_filaments
    in (1 < length tpu \<longrightarrow>
          result = Inl (RuntimeError ''Only supports up to one TPU filament.'')) \<and>
       (length tpu = 1 \<and> 1 < nozzle_count config \<and> master_extruder_id config \<in> {1, 2} \<and>
        (\<not> by_object config \<or> object_count print = 1) \<and>
        \<not> (filament_map_mode print = fmmAuto \<and> recommended = []) \<and>
        maps ! hd tpu \<noteq> - 1 \<and> tpu_misplaced config used maps \<longrightarrow>
          result = Inl (RuntimeError
            (if filament_map_mode print = fmmManual
             then ''Manual grouping error: TPU can only be placed in a nozzle alone.''
             else ''Auto grouping error: TPU can only be placed in a nozzle alone.''))) \<and>
       (length tpu = 1 \<and> nozzle_count config = 2 \<and> master_extruder_id config \<in> {1, 2} \<and>
        (\<forall>f\<in>set used. f < filament_count config) \<longrightarrow>
          recommended ! hd tpu = master \<and>
          (\<forall>f<filament_count config. f \<noteq> hd tpu \<longrightarrow> recommended ! f = 1 - master) \<and>
          1 - master \<noteq> master \<and>
          \<not> tpu_misplaced config used recommended \<and>
          (filament_map_mode print = fmmAuto \<and> (\<not> by_object config \<or> object_count print = 1) \<longrightarrow>
             result = Inr (Some recommended))))"
proof -
  define used where "used = collect_sorted_used_filaments layer_filaments"
  define tpu where "tpu = filter (\<lambda>f. filament_type config f = ''TPU'') used"
  define master where "master = master_extruder_id config - 1"
  define recommended where "recommended = get_recommended_filament_maps optimizer layer_filaments
      config (projr (get_physical_unprintables used config)) geometric"
  define maps where "maps = checked_filament_maps print recommended"
  define result where "result = driver_filament_maps optimizer config print geometric layer_filaments"
  have sd: "sorted used" "distinct used"
    unfolding used_def by (rule used_filaments_sorted_distinct)+
  have by_type: "get_filament_by_type used config ''TPU'' = tpu"
    unfolding tpu_def using sd by (rule get_filament_by_type_filter)
  have ne: "layer_filaments \<noteq> []" if "tpu \<noteq> []"
    using that by (auto simp: tpu_def used_def collect_sorted_used_filaments_Nil)
  have p1: "result = Inl (RuntimeError ''Only supports up to one TPU filament.'')"
    if "1 < length tpu"
  proof -
    from that have "tpu \<noteq> []" by auto
    from ne[OF this] get_physical_unprintables_two_tpu[of used config] that by_type
    show ?thesis
      by (simp add: result_def driver_filament_maps_def Let_def used_def[symmetric])
  qed
  have one: "tpu = [hd tpu]" if "length tpu = 1"
    using that by (cases tpu) simp_all
  have phys: "\<exists>P. get_physical_unprintables (collect_sorted_used_filaments layer_filaments) config = Inr P \<and>
        get_recommended_filament_maps optimizer layer_filaments config P geometric = recommended"
    if "length tpu = 1" "1 < nozzle_count config" "master_extruder_id config \<in> {1, 2}"
  proof -
    from one[OF that(1)] by_type have "get_filament_by_type used config ''TPU'' = [hd tpu]"
      by simp
    from get_physical_unprintables_one_tpu[OF this that(3,2)]
    obtain P where P: "get_physical_unprintables used config = Inr P" by auto
    then have "projr (get_physical_unprintables used config) = P" by simp
    with P show ?thesis by (auto simp: recommended_def used_def)
  qed
  have p2: "result = Inl (RuntimeError
            (if filament_map_mode print = fmmManual
             then ''Manual grouping error: TPU can only be placed in a nozzle alone.''
             else ''Auto grouping error: TPU can only be placed in a nozzle alone.''))"
    if h: "length tpu = 1" "1 < nozzle_count config" "master_extruder_id config \<in> {1, 2}"
      "\<not> by_object config \<or> object_count print = 1"
      "\<not> (filament_map_mode print = fmmAuto \<and> recommended = [])"
      "maps ! hd tpu \<noteq> - 1" "tpu_misplaced config used maps"
  proof -
    from h(1) have "tpu \<noteq> []" by auto
    note lf = ne[OF this]
    have "filter (\<lambda>f. filament_type config f = ''TPU'') used = [hd tpu]"
      using one[OF h(1)] by (simp add: tpu_def)
    from check_tpu_group_misplaced[OF this h(7,6)]
    have bad: "\<not> check_tpu_group used maps config" .
    from phys[OF h(1,2,3)] obtain P where
      P: "get_physical_unprintables (collect_sorted_used_filaments layer_filaments) config = Inr P"
      and R: "get_recommended_filament_maps optimizer layer_filaments config P geometric = recommended"
      by blast
    have M: "checked_filament_maps print recommended = maps" by (simp add: maps_def)
    have B: "\<not> check_tpu_group (collect_sorted_used_filaments layer_filaments) maps config"
      using bad by (simp add: used_def)
    show ?thesis
      unfolding result_def driver_filament_maps_def Let_def
      using lf h(2,4,5) B by (simp add: P R M)
  qed
  have p3: "recommended ! hd tpu = master \<and>
          (\<forall>f<filament_count config. f \<noteq> hd tpu \<longrightarrow> recommended ! f = 1 - master) \<and>
          1 - master \<noteq> master \<and>
          \<not> tpu_misplaced config used recommended \<and>
          (filament_map_mode print = fmmAuto \<and> (\<not> by_object config \<or> object_count print = 1) \<longrightarrow>
             result = Inr (Some recommended))"
    if h: "length tpu = 1" "nozzle_count config = 2" "master_extruder_id config \<in> {1, 2}"
      "\<forall>f\<in>set used. f < filament_count config"
  proof -
    from h(1) have tne: "tpu \<noteq> []" by auto
    note lf = ne[OF this]
    note t1 = one[OF h(1)]
    have tin: "hd tpu \<in> set used" "filament_type config (hd tpu) = ''TPU''"
    proof -
      from t1 have "hd tpu \<in> set tpu" by (metis list.set_intros(1))
      then show "hd tpu \<in> set used" "filament_type config (hd tpu) = ''TPU''"
        by (simp_all add: tpu_def)
    qed
    have settpu: "set tpu = {hd tpu}" using t1 by (metis list.simps(15) empty_set)
    have rec: "recommended = map (\<lambda>fidx. if fidx = hd tpu then master else 1 - master)
                               [0..<filament_count config]"
      unfolding recommended_def
      using recommended_tpu_path[OF h(2) lf, where optimizer = optimizer and geometric = geometric] tne by_type settpu
      by (simp add: used_def[symmetric] master_def)
    from tin(1) h(4) have tlt: "hd tpu < filament_count config" by blast
    have r1: "recommended ! hd tpu = master" using tlt by (simp add: rec)
    have r2: "\<forall>f<filament_count config. f \<noteq> hd tpu \<longrightarrow> recommended ! f = 1 - master"
      by (simp add: rec)
    have r3: "1 - master \<noteq> master" by presburger
    have alone: "recommended ! f = recommended ! hd tpu \<longleftrightarrow> f = hd tpu" if "f \<in> set used" for f
      using that h(4) r1 r2 r3 by (metis)
    have only: "t' = hd tpu" if "t' \<in> set used" "filament_type config t' = ''TPU''" for t'
    proof -
      from that have "t' \<in> set tpu" by (simp add: tpu_def)
      with settpu show ?thesis by simp
    qed
    have r4: "\<not> tpu_misplaced config used recommended"
      using only alone r1 by (auto simp: tpu_misplaced_def list_ex_iff master_def)
    have r5: "result = Inr (Some recommended)"
      if a: "filament_map_mode print = fmmAuto" "\<not> by_object config \<or> object_count print = 1"
    proof -
      have "filter (\<lambda>f. recommended ! f = master) used = filter (\<lambda>f. f = hd tpu) used"
        using alone r1 by (intro filter_cong) auto
      also have "\<dots> = [hd tpu]"
        using sd(2) tin(1) by (rule filter_eq_singleton)
      finally have cnt: "length (filter (\<lambda>f. recommended ! f = master) used) = 1" by simp
      have loop: "check_tpu_loop config recommended used (- 1) = Some master"
        using check_tpu_loop_one_tpu[of config used "hd tpu" recommended] t1 r1
        by (simp add: tpu_def)
      have ok: "check_tpu_group used recommended config"
        using cnt loop by (simp add: check_tpu_group_def Let_def master_def)
      have rne: "recommended \<noteq> []" using tlt by (auto simp: rec)
      have mm: "maps = recommended"
        unfolding maps_def using a(1) by (rule checked_filament_maps_auto)
      from h(2) have n2: "1 < nozzle_count config" by simp
      from phys[OF h(1) n2 h(3)] obtain P where
        P: "get_physical_unprintables (collect_sorted_used_filaments layer_filaments) config = Inr P"
        and R: "get_recommended_filament_maps optimizer layer_filaments config P geometric = recommended"
        by blast
      have M: "checked_filament_maps print recommended = recommended"
        using mm by (simp add: maps_def)
      have B: "check_tpu_group (collect_sorted_used_filaments layer_filaments) recommended config"
        using ok by (simp add: used_def)
      show ?thesis
        unfolding result_def driver_filament_maps_def Let_def
        using lf n2 a rne B by (simp add: P R M)
    qed
    from r1 r2 r3 r4 r5 show ?thesis by blast
  qed
  from p1 p2 p3 show ?thesis
    unfolding Let_def used_def[symmetric] tpu_def[symmetric] master_def[symmetric]
      recommended_def[symmetric] maps_def[symmetric] result_def[symmetric]
    by blast
qed


theorem driver_tpu_rule_witness:
  "driver_filament_maps (\<lambda>context layers used. [])
     \<lparr> filament_type = (\<lambda>f. ''TPU''), master_extruder_id = 1, nozzle_count = 2,
       nozzle_hrc = (\<lambda>e. 0), required_nozzle_HRC = (\<lambda>f. 0), filament_count = 2,
       extruder_ams_counts = [], by_object = False \<rparr>
     \<lparr> filament_maps = [1, 2], filament_map_mode = fmmManual, object_count = 1 \<rparr>
     [{}, {}] [[0, 1]]
     = Inl (RuntimeError ''Only supports up to one TPU filament.'') \<and>
   driver_filament_maps (\<lambda>context layers used. [])
     \<lparr> filament_type = (\<lambda>f. if f = 0 then ''TPU'' else ''PLA''), master_extruder_id = 1,
       nozzle_count = 2, nozzle_hrc = (\<lambda>e. 0), required_nozzle_HRC = (\<lambda>f. 0),
       filament_count = 3, extruder_ams_counts = [], by_object = False \<rparr>
     \<lparr> filament_maps = [1, 1, 2], filament_map_mode = fmmManual, object_count = 1 \<rparr>
     [{}, {}] [[0, 1], [1, 2]]
     = Inl (RuntimeError ''Manual grouping error: TPU can only be placed in a nozzle alone.'') \<and>
   driver_filament_maps (\<lambda>context layers used. [])
     \<lparr> filament_type = (\<lambda>f. if f = 0 then ''TPU'' else ''PLA''), master_extruder_id = 1,
       nozzle_count = 2, nozzle_hrc = (\<lambda>e. 0), required_nozzle_HRC = (\<lambda>f. 0),
       filament_count = 3, extruder_ams_counts = [], by_object = False \<rparr>
     \<lparr> filament_maps = [1, 1, 2], filament_map_mode = fmmAuto, object_count = 1 \<rparr>
     [{}, {}] [[0, 1], [1, 2]]
     = Inr (Some [0, 1, 1])"
proof -
  let ?opt = "\<lambda>(context::FilamentGroupContext) (layers::nat list list) (used::nat list). []::int list"
  let ?c2 = "\<lparr> filament_type = (\<lambda>f. ''TPU''), master_extruder_id = 1, nozzle_count = 2,
       nozzle_hrc = (\<lambda>e. 0), required_nozzle_HRC = (\<lambda>f. 0), filament_count = 2,
       extruder_ams_counts = [], by_object = False \<rparr>"
  let ?c = "\<lparr> filament_type = (\<lambda>f. if f = 0 then ''TPU'' else ''PLA''), master_extruder_id = 1,
       nozzle_count = 2, nozzle_hrc = (\<lambda>e. 0), required_nozzle_HRC = (\<lambda>f. 0),
       filament_count = 3, extruder_ams_counts = [], by_object = False \<rparr>"
  let ?pm = "\<lparr> filament_maps = [1, 1, 2], filament_map_mode = fmmManual, object_count = 1 \<rparr>"
  let ?pm2 = "\<lparr> filament_maps = [1, 2], filament_map_mode = fmmManual, object_count = 1 \<rparr>"
  let ?pa = "\<lparr> filament_maps = [1, 1, 2], filament_map_mode = fmmAuto, object_count = 1 \<rparr>"
  have u2: "collect_sorted_used_filaments [[0, 1]] = [0, 1::nat]"
    by (simp add: collect_sorted_used_filaments_def sort_remove_duplicates_def)
  have u3: "collect_sorted_used_filaments [[0, 1], [1, 2]] = [0, 1, 2::nat]"
    by (simp add: collect_sorted_used_filaments_def sort_remove_duplicates_def)
  have a: "driver_filament_maps ?opt ?c2 ?pm2 [{}, {}] [[0, 1]]
             = Inl (RuntimeError ''Only supports up to one TPU filament.'')"
    using driver_tpu_rule[of "[[0, 1]]" ?c2 ?opt "[{}, {}]" ?pm2]
    unfolding Let_def u2 by simp
  have rec: "get_recommended_filament_maps ?opt [[0, 1], [1, 2]] ?c P [{}, {}] = [0, 1, 1]" for P
    by (simp add: get_recommended_filament_maps_def Let_def u3[simplified] get_filament_by_type_def
        sort_remove_duplicates_def upt_rec)
  have b: "driver_filament_maps ?opt ?c ?pm [{}, {}] [[0, 1], [1, 2]]
     = Inl (RuntimeError ''Manual grouping error: TPU can only be placed in a nozzle alone.'')"
    using driver_tpu_rule[of "[[0, 1], [1, 2]]" ?c ?opt "[{}, {}]" ?pm]
    unfolding Let_def u3 rec
    by (simp add: checked_filament_maps_def tpu_misplaced_def)
  have c: "driver_filament_maps ?opt ?c ?pa [{}, {}] [[0, 1], [1, 2]] = Inr (Some [0, 1, 1])"
    using driver_tpu_rule[of "[[0, 1], [1, 2]]" ?c ?opt "[{}, {}]" ?pa]
    unfolding Let_def u3 rec
    by simp
  from a b c show ?thesis by blast
qed

text \<open>
  Claim C2 as stated fails. By object with two objects on a printer with two nozzles,
  the manual map that puts the TPU filament and another filament on the extruder that
  is not the master one is passed on without an error; and on a printer with a single
  nozzle the TPU filament shares the only extruder with another filament.
\<close>

theorem driver_tpu_rule_counterexample:
  "driver_filament_maps (\<lambda>context layers used. [])
     \<lparr> filament_type = (\<lambda>f. if f = 0 then ''TPU'' else ''PLA''), master_extruder_id = 1,
       nozzle_count = 2, nozzle_hrc = (\<lambda>e. 0), required_nozzle_HRC = (\<lambda>f. 0),
       filament_count = 2, extruder_ams_counts = [], by_object = True \<rparr>
     \<lparr> filament_maps = [2, 2], filament_map_mode = fmmManual, object_count = 2 \<rparr>
     [{}, {}] [[0, 1]]
     = Inr (Some [1, 1]) \<and>
   tpu_misplaced
     \<lparr> filament_type = (\<lambda>f. if f = 0 then ''TPU'' else ''PLA''), master_extruder_id = 1,
       nozzle_count = 2, nozzle_hrc = (\<lambda>e. 0), required_nozzle_HRC = (\<lambda>f. 0),
       filament_count = 2, extruder_ams_counts = [], by_object = True \<rparr>
     (collect_sorted_used_filaments [[0, 1]]) [1, 1] \<and>
   driver_filament_maps (\<lambda>context layers used. [])
     \<lparr> filament_type = (\<lambda>f. if f = 0 then ''TPU'' else ''PLA''), master_extruder_id = 1,
       nozzle_count = 1, nozzle_hrc = (\<lambda>e. 0), required_nozzle_HRC = (\<lambda>f. 0),
       filament_count = 2, extruder_ams_counts = [], by_object = False \<rparr>
     \<lparr> filament_maps = [1, 1], filament_map_mode = fmmManual, object_count = 1 \<rparr>
     [{}] [[0, 1]]
     = Inr (Some [0, 0]) \<and>
   tpu_misplaced
     \<lparr> filament_type = (\<lambda>f. if f = 0 then ''TPU'' else ''PLA''), master_extruder_id = 1,
       nozzle_count = 1, nozzle_hrc = (\<lambda>e. 0), required_nozzle_HRC = (\<lambda>f. 0),
       filament_count = 2, extruder_ams_counts = [], by_object = False \<rparr>
     (collect_sorted_used_filaments [[0, 1]]) [0, 0]"
proof -
  have u2: "collect_sorted_used_filaments [[0, 1]] = [0, 1::nat]"
    by (simp add: collect_sorted_used_filaments_def sort_remove_duplicates_def)
  show ?thesis
    by (simp add: driver_filament_maps_def Let_def u2[simplified] get_physical_unprintables_def
        get_filament_by_type_def sort_remove_duplicates_def tpu_misplaced_def
        add_hrc_unprintables_def)
qed

lemma group_sizes_two:
  "group_sizes [c0, c1] = [ams_capacity c0, ams_capacity c1]"
  by (simp add: group_sizes_def)

lemma filaments_on_cong:
  "\<forall>f\<in>set used. a ! f = b ! f \<Longrightarrow> filaments_on a used e = filaments_on b used e"
  unfolding filaments_on_def by (intro arg_cong[where f = length] filter_cong) auto

lemma hard_constraints_capacity:
  assumes "hard_constraints config context used maps" "e < 2"
  shows "int (filaments_on maps used (int e)) \<le> max_group_size context ! e"
proof -
  from assms(2) have "e = 0 \<or> e = 1" by auto
  with assms(1) show ?thesis by (auto simp: hard_constraints_def)
qed

lemma filament_group_optimizer_feasible:
  assumes "length maps = total_filament_num context" "set maps \<subseteq> {0, 1}"
    and "hard_constraints config context used maps"
  shows "\<exists>best. filament_group_optimizer cost config context layer_filaments used = Some best \<and>
           hard_constraints config context used best"
proof -
  let ?cs = "filter (hard_constraints config context used)
               (List.n_lists (total_filament_num context) [0, 1])"
  from assms(1,2) have "maps \<in> set (List.n_lists (total_filament_num context) [0, 1])"
    by (simp add: set_n_lists)
  with assms(3) have ne: "?cs \<noteq> []" by (auto simp: filter_empty_conv)
  then obtain c cs where cs: "?cs = c # cs" by (cases ?cs) auto
  from ne have "arg_min_list (cost layer_filaments) ?cs \<in> set ?cs" by (rule arg_min_list_in)
  then have "hard_constraints config context used (arg_min_list (cost layer_filaments) ?cs)"
    by simp
  moreover have "filament_group_optimizer cost config context layer_filaments used
      = Some (arg_min_list (cost layer_filaments) ?cs)"
    by (simp add: filament_group_optimizer_def cs)
  ultimately show ?thesis by blast
qed

lemma tpu_path_agrees:
  assumes len: "length maps = n" and bin: "set maps \<subseteq> {0, 1}"
    and hard: "hard_constraints config context used maps"
    and ids: "\<forall>f\<in>set used. f < n"
    and tpu: "filter (\<lambda>f. filament_type config f = ''TPU'') used \<noteq> []"
  shows "\<forall>f\<in>set used.
           map (\<lambda>fidx. if fidx \<in> set (filter (\<lambda>f. filament_type config f = ''TPU'') used)
                       then master_extruder_id config - 1
                       else 1 - (master_extruder_id config - 1)) [0..<n] ! f = maps ! f"
proof
  fix f assume f: "f \<in> set used"
  let ?master = "master_extruder_id config - 1"
  from tpu obtain t where t: "t \<in> set used" "filament_type config t = ''TPU''"
    by (auto simp: filter_empty_conv)
  from hard have nm: "\<not> tpu_misplaced config used maps" by (simp add: hard_constraints_def)
  from nm t have mt: "maps ! t = ?master"
    and alone: "\<forall>g\<in>set used. g \<noteq> t \<longrightarrow> maps ! g \<noteq> maps ! t"
    by (auto simp: tpu_misplaced_def list_ex_iff)
  have in01: "maps ! g = 0 \<or> maps ! g = 1" if "g \<in> set used" for g
  proof -
    from that ids len have "g < length maps" by simp
    then have "maps ! g \<in> set maps" by simp
    with bin show ?thesis by auto
  qed
  from ids f have fn: "f < n" by simp
  show "map (\<lambda>fidx. if fidx \<in> set (filter (\<lambda>f. filament_type config f = ''TPU'') used)
                       then ?master else 1 - ?master) [0..<n] ! f = maps ! f"
  proof (cases "filament_type config f = ''TPU''")
    case True
    with nm f have "maps ! f = ?master" by (auto simp: tpu_misplaced_def list_ex_iff)
    with True f fn show ?thesis by simp
  next
    case False
    with t have "f \<noteq> t" by auto
    with alone f have "maps ! f \<noteq> maps ! t" by simp
    with in01[OF f] in01[OF t(1)] mt have "maps ! f = 1 - ?master" by auto
    with False f fn show ?thesis by simp
  qed
qed

text \<open>
  Claim C3. On a printer with two nozzles the capacities are 16 and 16 when no AMS
  counts are configured, else the sum of slots times units of each extruder, 1 where
  that sum is 0. For used filaments that are filaments of the configuration and that
  have a map to the extruders 0 and 1 satisfying the hard constraints under these
  capacities, the map that \<^verbatim>\<open>get_recommended_filament_maps\<close> returns puts on each extruder
  at most as many used filaments as its capacity, on both paths: without a used TPU
  filament the map is the one of the optimizer, which satisfies the hard constraints;
  with a used TPU filament the TPU filament goes to the master extruder and every other
  filament to the other extruder. The optimizer is the one modelled from the spec.
\<close>

theorem get_recommended_filament_maps_capacity:
  assumes n2: "nozzle_count config = 2" and ne: "layer_filaments \<noteq> []"
    and ids: "\<forall>f\<in>set (collect_sorted_used_filaments layer_filaments). f < filament_count config"
    and feasible: "\<exists>maps. length maps = filament_count config \<and> set maps \<subseteq> {0, 1} \<and>
        hard_constraints config
          \<lparr> max_group_size = group_sizes (extruder_ams_counts config),
            total_filament_num = filament_count config,
            ctx_master_extruder_id = master_extruder_id config - 1,
            physical_unprintables = physical,
            geometric_unprintables = geometric \<rparr>
          (collect_sorted_used_filaments layer_filaments) maps"
  shows
  "(let used = collect_sorted_used_filaments layer_filaments;
        tpu = filter (\<lambda>f. filament_type config f = ''TPU'') used;
        capacity = group_sizes (extruder_ams_counts config);
        context = \<lparr> max_group_size = capacity,
                    total_filament_num = filament_count config,
                    ctx_master_extruder_id = master_extruder_id config - 1,
                    physical_unprintables = physical,
                    geometric_unprintables = geometric \<rparr>;
        optimizer = (\<lambda>context layer_filaments used_filaments.
                       case filament_group_optimizer cost config context layer_filaments
                              used_filaments of
                         None \<Rightarrow> []
                       | Some maps \<Rightarrow> maps);
        ret = get_recommended_filament_maps optimizer layer_filaments config physical geometric
    in (extruder_ams_counts config = [] \<longrightarrow> capacity = [16, 16]) \<and>
       (length (extruder_ams_counts config) = 2 \<longrightarrow>
          capacity = map (\<lambda>ams_count.
                            if sum_list (map (\<lambda>(slots, units). slots * units) ams_count) = 0 then 1
                            else sum_list (map (\<lambda>(slots, units). slots * units) ams_count))
                       (extruder_ams_counts config)) \<and>
       (\<forall>e<2. int (filaments_on ret used (int e)) \<le> capacity ! e) \<and>
       (tpu = [] \<longrightarrow>
          filament_group_optimizer cost config context layer_filaments used = Some ret \<and>
          hard_constraints config context used ret) \<and>
       (tpu \<noteq> [] \<longrightarrow>
          ret = map (\<lambda>fidx. if fidx \<in> set tpu then master_extruder_id config - 1
                            else 1 - (master_extruder_id config - 1)) [0..<filament_count config]))"
proof -
  define used where "used = collect_sorted_used_filaments layer_filaments"
  define tpu where "tpu = filter (\<lambda>f. filament_type config f = ''TPU'') used"
  define capacity where "capacity = group_sizes (extruder_ams_counts config)"
  define ctx where "ctx = \<lparr> max_group_size = capacity,
                    total_filament_num = filament_count config,
                    ctx_master_extruder_id = master_extruder_id config - 1,
                    physical_unprintables = physical,
                    geometric_unprintables = geometric \<rparr>"
  define optimizer where "optimizer = (\<lambda>context layer_filaments used_filaments.
                       case filament_group_optimizer cost config context layer_filaments
                              used_filaments of
                         None \<Rightarrow> []
                       | Some maps \<Rightarrow> maps)"
  define ret where
    "ret = get_recommended_filament_maps optimizer layer_filaments config physical geometric"
  from feasible obtain m where m: "length m = filament_count config" "set m \<subseteq> {0, 1}"
    "hard_constraints config ctx used m"
    unfolding ctx_def capacity_def used_def by blast
  have cap: "max_group_size ctx = capacity" by (simp add: ctx_def)
  have sd: "sorted used" "distinct used"
    unfolding used_def by (rule used_filaments_sorted_distinct)+
  have by_type: "get_filament_by_type used config ''TPU'' = tpu"
    unfolding tpu_def using sd by (rule get_filament_by_type_filter)
  have c1: "capacity = [16, 16]" if "extruder_ams_counts config = []"
    using that by (simp add: capacity_def group_sizes_def)
  have c2: "capacity = map (\<lambda>ams_count.
                            if sum_list (map (\<lambda>(slots, units). slots * units) ams_count) = 0 then 1
                            else sum_list (map (\<lambda>(slots, units). slots * units) ams_count))
                       (extruder_ams_counts config)"
    if "length (extruder_ams_counts config) = 2"
  proof -
    from that obtain c0 c1 where "extruder_ams_counts config = [c0, c1]"
      by (auto simp: length_Suc_conv eval_nat_numeral)
    then show ?thesis
      by (simp add: capacity_def group_sizes_two ams_capacity_def Let_def)
  qed
  have r1: "filament_group_optimizer cost config ctx layer_filaments used = Some ret \<and>
            hard_constraints config ctx used ret" if "tpu = []"
  proof -
    have "ret = optimizer ctx layer_filaments used"
      unfolding ret_def ctx_def capacity_def used_def
      using recommended_no_tpu_path[OF n2 ne, where optimizer = optimizer
          and geometric = geometric and physical = physical] that by_type
      by (simp add: used_def)
    moreover from m(1) have "length m = total_filament_num ctx" by (simp add: ctx_def)
    from filament_group_optimizer_feasible[OF this m(2,3), of cost layer_filaments]
    obtain best where "filament_group_optimizer cost config ctx layer_filaments used = Some best"
      "hard_constraints config ctx used best" by blast
    ultimately show ?thesis by (simp add: optimizer_def)
  qed
  have r3: "ret = map (\<lambda>fidx. if fidx \<in> set tpu then master_extruder_id config - 1
                            else 1 - (master_extruder_id config - 1)) [0..<filament_count config]"
    if "tpu \<noteq> []"
    unfolding ret_def
    using recommended_tpu_path[OF n2 ne, where optimizer = optimizer and geometric = geometric
        and physical = physical] that by_type
    by (simp add: used_def[symmetric])
  have r2: "\<forall>e<2. int (filaments_on ret used (int e)) \<le> capacity ! e"
  proof (cases "tpu = []")
    case True
    from r1[OF True] have "hard_constraints config ctx used ret" by simp
    from hard_constraints_capacity[OF this] cap show ?thesis by simp
  next
    case False
    from ids have ids': "\<forall>f\<in>set used. f < filament_count config" by (simp add: used_def)
    have "\<forall>f\<in>set used. ret ! f = m ! f"
      unfolding r3[OF False] tpu_def
      using m(1,2,3) ids' False[unfolded tpu_def] by (rule tpu_path_agrees)
    then have "filaments_on ret used e = filaments_on m used e" for e
      by (rule filaments_on_cong)
    with hard_constraints_capacity[OF m(3)] cap show ?thesis by simp
  qed
  from c1 c2 r1 r2 r3 show ?thesis
    unfolding Let_def used_def[symmetric] tpu_def[symmetric]
      capacity_def[symmetric] ctx_def[symmetric] optimizer_def[symmetric] ret_def[symmetric]
    by blast
qed

theorem get_recommended_filament_maps_capacity_witness:
  "get_recommended_filament_maps
     (\<lambda>context layer_filaments used_filaments.
        case filament_group_optimizer (\<lambda>layers maps. - of_int (sum_list maps))
               \<lparr> filament_type = (\<lambda>f. ''PLA''), master_extruder_id = 1, nozzle_count = 2,
                 nozzle_hrc = (\<lambda>e. 0), required_nozzle_HRC = (\<lambda>f. 0), filament_count = 3,
                 extruder_ams_counts = [[(4, 1)], []], by_object = False \<rparr>
               context layer_filaments used_filaments of
          None \<Rightarrow> []
        | Some maps \<Rightarrow> maps)
     [[0, 1], [1, 2]]
     \<lparr> filament_type = (\<lambda>f. ''PLA''), master_extruder_id = 1, nozzle_count = 2,
       nozzle_hrc = (\<lambda>e. 0), required_nozzle_HRC = (\<lambda>f. 0), filament_count = 3,
       extruder_ams_counts = [[(4, 1)], []], by_object = False \<rparr> [{}, {}] [{}, {}]
     = [1, 0, 0] \<and>
   group_sizes [[(4, 1)], []] = [4, 1] \<and>
   int (filaments_on [1, 0, 0] [0, 1, 2] 0) \<le> 4 \<and>
   int (filaments_on [1, 0, 0] [0, 1, 2] 1) \<le> 1 \<and>
   get_recommended_filament_maps
     (\<lambda>context layer_filaments used_filaments.
        case filament_group_optimizer (\<lambda>layers maps. - of_int (sum_list maps))
               \<lparr> filament_type = (\<lambda>f. if f = 0 then ''TPU'' else ''PLA''), master_extruder_id = 1,
                 nozzle_count = 2, nozzle_hrc = (\<lambda>e. 0), required_nozzle_HRC = (\<lambda>f. 0),
                 filament_count = 3, extruder_ams_counts = [[], [(2, 1)]], by_object = False \<rparr>
               context layer_filaments used_filaments of
          None \<Rightarrow> []
        | Some maps \<Rightarrow> maps)
     [[0, 1], [1, 2]]
     \<lparr> filament_type = (\<lambda>f. if f = 0 then ''TPU'' else ''PLA''), master_extruder_id = 1,
       nozzle_count = 2, nozzle_hrc = (\<lambda>e. 0), required_nozzle_HRC = (\<lambda>f. 0),
       filament_count = 3, extruder_ams_counts = [[], [(2, 1)]], by_object = False \<rparr>
     [{}, {0}] [{}, {}]
     = [0, 1, 1] \<and>
   group_sizes [[], [(2, 1)]] = [1, 2] \<and>
   int (filaments_on [0, 1, 1] [0, 1, 2] 0) \<le> 1 \<and>
   int (filaments_on [0, 1, 1] [0, 1, 2] 1) \<le> 2"
proof -
  let ?cost = "\<lambda>(layers :: nat list list) (maps :: int list). - of_int (sum_list maps) :: rat"
  let ?l = "[[0, 1], [1, 2 :: nat]]"
  let ?c = "\<lparr> filament_type = (\<lambda>f. ''PLA''), master_extruder_id = 1, nozzle_count = 2,
       nozzle_hrc = (\<lambda>e. 0), required_nozzle_HRC = (\<lambda>f. 0), filament_count = 3,
       extruder_ams_counts = [[(4, 1)], []], by_object = False \<rparr>"
  let ?t = "\<lparr> filament_type = (\<lambda>f. if f = 0 then ''TPU'' else ''PLA''), master_extruder_id = 1,
       nozzle_count = 2, nozzle_hrc = (\<lambda>e. 0), required_nozzle_HRC = (\<lambda>f. 0),
       filament_count = 3, extruder_ams_counts = [[], [(2, 1)]], by_object = False \<rparr>"
  let ?opt = "\<lambda>config context layer_filaments used_filaments.
        case filament_group_optimizer ?cost config context layer_filaments used_filaments of
          None \<Rightarrow> []
        | Some maps \<Rightarrow> maps"
  have u3: "collect_sorted_used_filaments ?l = [0, 1, 2]"
    by (simp add: collect_sorted_used_filaments_def sort_remove_duplicates_def)
  have g1: "group_sizes [[(4, 1)], []] = [4, 1]"
    by (simp add: group_sizes_def ams_capacity_def)
  have g2: "group_sizes [[], [(2, 1)]] = [1, 2]"
    by (simp add: group_sizes_def ams_capacity_def)
  have h1: "hard_constraints ?c
      \<lparr> max_group_size = [4, 1], total_filament_num = 3, ctx_master_extruder_id = 0,
        physical_unprintables = [{}, {}], geometric_unprintables = [{}, {}] \<rparr> [0, 1, 2] [1, 0, 0]"
    by code_simp
  have h2: "hard_constraints ?t
      \<lparr> max_group_size = [1, 2], total_filament_num = 3, ctx_master_extruder_id = 0,
        physical_unprintables = [{}, {0}], geometric_unprintables = [{}, {}] \<rparr> [0, 1, 2] [0, 1, 1]"
    by code_simp
  have r1: "get_recommended_filament_maps (?opt ?c) ?l ?c [{}, {}] [{}, {}] = [1, 0, 0]"
    by code_simp
  have r2: "get_recommended_filament_maps (?opt ?t) ?l ?t [{}, {0}] [{}, {}] = [0, 1, 1]"
    by code_simp
  have f1: "\<exists>maps. length maps = filament_count ?c \<and> set maps \<subseteq> {0, 1} \<and>
        hard_constraints ?c
          \<lparr> max_group_size = group_sizes (extruder_ams_counts ?c),
            total_filament_num = filament_count ?c,
            ctx_master_extruder_id = master_extruder_id ?c - 1,
            physical_unprintables = [{}, {}],
            geometric_unprintables = [{}, {}] \<rparr>
          (collect_sorted_used_filaments ?l) maps"
    by (rule exI[of _ "[1, 0, 0]"]) (simp add: u3 u3[simplified] g1 h1 h1[simplified])
  have f2: "\<exists>maps. length maps = filament_count ?t \<and> set maps \<subseteq> {0, 1} \<and>
        hard_constraints ?t
          \<lparr> max_group_size = group_sizes (extruder_ams_counts ?t),
            total_filament_num = filament_count ?t,
            ctx_master_extruder_id = master_extruder_id ?t - 1,
            physical_unprintables = [{}, {0}],
            geometric_unprintables = [{}, {}] \<rparr>
          (collect_sorted_used_filaments ?l) maps"
    by (rule exI[of _ "[0, 1, 1]"]) (simp add: u3 u3[simplified] g2 h2 h2[simplified])
  have ids: "\<forall>f\<in>set (collect_sorted_used_filaments ?l). f < filament_count ?c"
    "\<forall>f\<in>set (collect_sorted_used_filaments ?l). f < filament_count ?t"
    by (simp_all add: u3 u3[simplified])
  note a = get_recommended_filament_maps_capacity[where config = ?c and layer_filaments = ?l
      and physical = "[{}, {}]" and geometric = "[{}, {}]" and cost = ?cost,
      OF _ _ ids(1) f1, unfolded Let_def u3]
  have "\<forall>e<2. int (filaments_on (get_recommended_filament_maps (?opt ?c) ?l ?c [{}, {}] [{}, {}])
                      [0, 1, 2] (int e)) \<le> group_sizes [[(4, 1)], []] ! e"
    using a[THEN conjunct2, THEN conjunct2, THEN conjunct1] by simp
  then have a2: "int (filaments_on [1, 0, 0] [0, 1, 2] 0) \<le> 4 \<and>
                 int (filaments_on [1, 0, 0] [0, 1, 2] 1) \<le> 1"
    unfolding r1 g1 by (simp add: less_2_cases_iff)
  note b = get_recommended_filament_maps_capacity[where config = ?t and layer_filaments = ?l
      and physical = "[{}, {0}]" and geometric = "[{}, {}]" and cost = ?cost,
      OF _ _ ids(2) f2, unfolded Let_def u3]
  have "\<forall>e<2. int (filaments_on (get_recommended_filament_maps (?opt ?t) ?l ?t [{}, {0}] [{}, {}])
                      [0, 1, 2] (int e)) \<le> group_sizes [[], [(2, 1)]] ! e"
    using b[THEN conjunct2, THEN conjunct2, THEN conjunct1] by simp
  then have b2: "int (filaments_on [0, 1, 1] [0, 1, 2] 0) \<le> 1 \<and>
                 int (filaments_on [0, 1, 1] [0, 1, 2] 1) \<le> 2"
    unfolding r2 g2 by (simp add: less_2_cases_iff)
  from r1 g1 a2 r2 g2 b2 show ?thesis by blast
qed
section \<open>Custom G-code events are attached to the nearest layer\<close>

lemma mark_printing_Some:
  "\<forall>i\<in>set es. unat i < length flags \<Longrightarrow>
     \<exists>out. mark_printing es flags = Some out \<and> length out = length flags \<and>
       (\<forall>e<length flags. out ! e = (flags ! e \<or> list_ex (\<lambda>i. unat i = e) es))"
proof (induction es arbitrary: flags)
  case Nil
  then show ?case by simp
next
  case (Cons i es)
  let ?f = "flags[unat i := True]"
  from Cons.prems have "\<forall>i\<in>set es. unat i < length ?f" by simp
  from Cons.IH[OF this] obtain out where
    o: "mark_printing es ?f = Some out" "length out = length flags"
      "\<forall>e<length flags. out ! e = (?f ! e \<or> list_ex (\<lambda>i. unat i = e) es)"
    by auto
  from Cons.prems have i: "unat i < length flags" by simp
  have "out ! e = (flags ! e \<or> list_ex (\<lambda>i. unat i = e) (i # es))" if "e < length flags" for e
    using o(3) that i by (cases "e = unat i") auto
  with o(1,2) i show ?case by simp
qed

lemma extruder_print_above_by_layer_Some:
  "\<forall>lt\<in>set lts. \<forall>i\<in>set (extruders lt). unat i < num_filaments \<Longrightarrow>
     \<exists>by_layer. extruder_print_above_by_layer num_filaments lts = Some by_layer \<and>
       length by_layer = length lts \<and>
       (\<forall>idx<length lts. length (by_layer ! idx) = num_filaments \<and>
          (\<forall>e<num_filaments. by_layer ! idx ! e = prints_at_or_above lts e idx))"
proof (induction lts)
  case Nil
  then show ?case by simp
next
  case (Cons lt lts)
  then obtain by_layer where
    b: "extruder_print_above_by_layer num_filaments lts = Some by_layer"
      "length by_layer = length lts"
      "\<forall>idx<length lts. length (by_layer ! idx) = num_filaments \<and>
          (\<forall>e<num_filaments. by_layer ! idx ! e = prints_at_or_above lts e idx)"
    by auto
  define start where
    "start = (case by_layer of [] \<Rightarrow> replicate num_filaments False | flags # _ \<Rightarrow> flags)"
  have sl: "length start = num_filaments"
  proof (cases by_layer)
    case Nil
    then show ?thesis by (simp add: start_def)
  next
    case (Cons f fs)
    with b(2) have "0 < length lts" by auto
    with b(3) have "length (by_layer ! 0) = num_filaments" by blast
    with Cons show ?thesis by (simp add: start_def)
  qed
  have sv: "start ! e = prints_at_or_above lts e 0" if "e < num_filaments" for e
  proof (cases by_layer)
    case Nil
    with b(2) that show ?thesis by (simp add: start_def prints_at_or_above_def)
  next
    case (Cons f fs)
    with b(2) have "0 < length lts" by auto
    with b(3) that have "by_layer ! 0 ! e = prints_at_or_above lts e 0" by blast
    with Cons show ?thesis by (simp add: start_def)
  qed
  from Cons.prems sl have "\<forall>i\<in>set (extruders lt). unat i < length start" by simp
  from mark_printing_Some[OF this] obtain flags where
    f: "mark_printing (extruders lt) start = Some flags" "length flags = length start"
      "\<forall>e<length start. flags ! e = (start ! e \<or> list_ex (\<lambda>i. unat i = e) (extruders lt))"
    by auto
  have r: "extruder_print_above_by_layer num_filaments (lt # lts) = Some (flags # by_layer)"
    using b(1) f(1) by (simp add: start_def)
  have "length ((flags # by_layer) ! idx) = num_filaments \<and>
          (\<forall>e<num_filaments. (flags # by_layer) ! idx ! e = prints_at_or_above (lt # lts) e idx)"
    if "idx < length (lt # lts)" for idx
  proof (cases idx)
    case 0
    then show ?thesis
      using f(2,3) sl sv by (auto simp: prints_at_or_above_def)
  next
    case (Suc j)
    with that b(3) show ?thesis by (simp add: prints_at_or_above_def)
  qed
  with r b(2) show ?case by simp
qed


lemma upper_bound_le: "upper_bound lts z \<le> length lts"
  by (simp add: upper_bound_def length_takeWhile_le)

lemma chosen_layer_less: "lts \<noteq> [] \<Longrightarrow> chosen_layer lts z < length lts"
  using upper_bound_le[of lts z]
  by (auto simp: chosen_layer_def Let_def)

lemma upper_bound_map:
  "upper_bound lts z = length (takeWhile (\<lambda>p. \<not> z < p) (map print_z lts))"
  by (simp add: upper_bound_def takeWhile_map comp_def)

lemma chosen_layer_cong:
  assumes "map print_z a = map print_z b"
  shows "chosen_layer a z = chosen_layer b z"
proof -
  have u: "upper_bound a z = upper_bound b z" by (simp add: upper_bound_map assms)
  have l: "length a = length b" using assms by (metis length_map)
  have n: "print_z (a ! i) = print_z (b ! i)" if "i < length b" for i
    using that assms l by (metis nth_map)
  show ?thesis
  proof (cases "upper_bound b z = 0 \<or> upper_bound b z = length b")
    case True
    then show ?thesis by (auto simp: chosen_layer_def Let_def u l)
  next
    case False
    with upper_bound_le[of b z] have "upper_bound b z < length b" "upper_bound b z - 1 < length b"
      by auto
    then show ?thesis
      using False by (simp add: chosen_layer_def Let_def u l n)
  qed
qed

lemma prints_at_or_above_cong:
  "map extruders a = map extruders b \<Longrightarrow> prints_at_or_above a e idx = prints_at_or_above b e idx"
proof -
  assume m: "map extruders a = map extruders b"
  have "prints_at_or_above x e idx
          = list_ex (list_ex (\<lambda>i. unat i = e)) (drop idx (map extruders x))" for x
    by (simp add: prints_at_or_above_def drop_map list_ex_iff)
  with m show ?thesis by simp
qed

lemma event_attached_cong:
  "map print_z a = map print_z b \<Longrightarrow> map extruders a = map extruders b \<Longrightarrow>
     event_attached mode ignore n a item = event_attached mode ignore n b item"
  by (simp add: event_attached_def chosen_layer_cong[of a b] prints_at_or_above_cong[of a b])

lemma assign_event_result:
  assumes ne: "lts \<noteq> []"
    and len: "length by_layer = length lts"
    and table: "\<forall>idx<length lts. length (by_layer ! idx) = num_filaments \<and>
          (\<forall>e<num_filaments. by_layer ! idx ! e = prints_at_or_above lts e idx)"
    and ext: "item_type item = ColorChange \<longrightarrow> 1 \<le> item_extruder item"
  shows "assign_event mode ignore tool_as_color num_filaments by_layer (k, item) lts =
           Some (if event_attached mode ignore num_filaments lts item
                 then lts[chosen_layer lts (item_print_z item) :=
                            (lts ! chosen_layer lts (item_print_z item))\<lparr>custom_gcode := Some k\<rparr>]
                 else lts)"
proof -
  define c where "c = chosen_layer lts (item_print_z item)"
  have c: "c < length lts" unfolding c_def using ne by (rule chosen_layer_less)
  with table have tl: "length (by_layer ! c) = num_filaments"
    and tv: "\<And>e. e < num_filaments \<Longrightarrow> by_layer ! c ! e = prints_at_or_above lts e c"
    by blast+
  show ?thesis
  proof (cases "item_type item = ToolChange")
    case True
    then show ?thesis by (simp add: assign_event_def event_attached_def)
  next
    case nt: False
    show ?thesis
    proof (cases "item_type item = ColorChange")
      case False
      with nt show ?thesis
        using ne
        by (simp add: assign_event_def event_attached_def apply_custom_gcode_to_layer_def Let_def
            c_def[symmetric])
    next
      case True
      with ext have e1: "1 \<le> item_extruder item" by simp
      have idx: "nat (item_extruder item - 1) < num_filaments"
        if "item_extruder item \<le> int num_filaments"
        using that e1 by linarith
      show ?thesis
        using ne True e1 idx tv[OF idx] c
        by (auto simp: assign_event_def event_attached_def apply_custom_gcode_to_layer_def Let_def
            c_def[symmetric] tl)
    qed
  qed
qed


lemma find_snoc:
  "find P (xs @ [y]) = (case find P xs of None \<Rightarrow> (if P y then Some y else None) | Some x \<Rightarrow> Some x)"
  by (induction xs) auto

lemma assign_events_result:
  assumes "lts \<noteq> []"
    and "length by_layer = length lts"
    and "\<forall>idx<length lts. length (by_layer ! idx) = num_filaments \<and>
          (\<forall>e<num_filaments. by_layer ! idx ! e = prints_at_or_above lts e idx)"
    and "\<forall>ev\<in>set events. item_type (snd ev) = ColorChange \<longrightarrow> 1 \<le> item_extruder (snd ev)"
  shows "\<exists>out. assign_events mode ignore tool_as_color num_filaments by_layer events lts = Some out \<and>
           length out = length lts \<and>
           (\<forall>i<length lts. \<exists>g. out ! i = (lts ! i)\<lparr>custom_gcode := g\<rparr>) \<and>
           (\<forall>i<length lts. custom_gcode (out ! i) =
              (case find (\<lambda>ev. event_attached mode ignore num_filaments lts (snd ev) \<and>
                                chosen_layer lts (item_print_z (snd ev)) = i) (rev events) of
                 None \<Rightarrow> custom_gcode (lts ! i)
               | Some ev \<Rightarrow> Some (fst ev)))"
  using assms
proof (induction events arbitrary: lts)
  case Nil
  have "\<exists>g. lts ! i = (lts ! i)\<lparr>custom_gcode := g\<rparr>" for i
    by (rule exI[of _ "custom_gcode (lts ! i)"]) simp
  then show ?case by simp
next
  case (Cons ev events)
  obtain k item where ev: "ev = (k, item)" by (cases ev)
  define c where "c = chosen_layer lts (item_print_z item)"
  define lts1 where "lts1 = (if event_attached mode ignore num_filaments lts item
                 then lts[c := (lts ! c)\<lparr>custom_gcode := Some k\<rparr>] else lts)"
  from Cons.prems(4) ev have e: "item_type item = ColorChange \<longrightarrow> 1 \<le> item_extruder item"
    by simp
  have step: "assign_event mode ignore tool_as_color num_filaments by_layer ev lts = Some lts1"
    unfolding ev lts1_def c_def
    by (rule assign_event_result[OF Cons.prems(1,2,3) e])
  have c: "c < length lts" unfolding c_def using Cons.prems(1) by (rule chosen_layer_less)
  have l1: "length lts1 = length lts" by (simp add: lts1_def)
  have n1: "lts1 ! i = (if event_attached mode ignore num_filaments lts item \<and> i = c
                        then (lts ! i)\<lparr>custom_gcode := Some k\<rparr> else lts ! i)"
    if "i < length lts" for i
    using that by (auto simp: lts1_def)
  have pz: "map print_z lts1 = map print_z lts"
    using n1 l1 by (intro nth_equalityI) auto
  have ex: "map extruders lts1 = map extruders lts"
    using n1 l1 by (intro nth_equalityI) auto
  have ch: "chosen_layer lts1 z = chosen_layer lts z" for z
    using pz by (rule chosen_layer_cong)
  have at: "event_attached mode ignore num_filaments lts1 it
              = event_attached mode ignore num_filaments lts it" for it
    using pz ex by (rule event_attached_cong)
  have pa: "prints_at_or_above lts1 e idx = prints_at_or_above lts e idx" for e idx
    using ex by (rule prints_at_or_above_cong)
  have p1: "lts1 \<noteq> []" using l1 Cons.prems(1) by auto
  have p2: "length by_layer = length lts1" using l1 Cons.prems(2) by simp
  have p3: "\<forall>idx<length lts1. length (by_layer ! idx) = num_filaments \<and>
          (\<forall>e<num_filaments. by_layer ! idx ! e = prints_at_or_above lts1 e idx)"
    using Cons.prems(3) by (simp add: l1 pa)
  have p4: "\<forall>ev\<in>set events. item_type (snd ev) = ColorChange \<longrightarrow> 1 \<le> item_extruder (snd ev)"
    using Cons.prems(4) by simp
  from Cons.IH[OF p1 p2 p3 p4] obtain out where
    o: "assign_events mode ignore tool_as_color num_filaments by_layer events lts1 = Some out"
      "length out = length lts1"
      "\<forall>i<length lts1. \<exists>g. out ! i = (lts1 ! i)\<lparr>custom_gcode := g\<rparr>"
      "\<forall>i<length lts1. custom_gcode (out ! i) =
              (case find (\<lambda>ev. event_attached mode ignore num_filaments lts1 (snd ev) \<and>
                                chosen_layer lts1 (item_print_z (snd ev)) = i) (rev events) of
                 None \<Rightarrow> custom_gcode (lts1 ! i)
               | Some ev \<Rightarrow> Some (fst ev))"
    by blast
  have r: "assign_events mode ignore tool_as_color num_filaments by_layer (ev # events) lts = Some out"
    using step o(1) by simp
  have f: "\<exists>g. out ! i = (lts ! i)\<lparr>custom_gcode := g\<rparr>" if "i < length lts" for i
  proof -
    from o(3) that l1 obtain g where "out ! i = (lts1 ! i)\<lparr>custom_gcode := g\<rparr>" by auto
    then show ?thesis using n1[OF that] by (cases "event_attached mode ignore num_filaments lts item \<and> i = c") auto
  qed
  have g: "custom_gcode (out ! i) =
              (case find (\<lambda>ev. event_attached mode ignore num_filaments lts (snd ev) \<and>
                                chosen_layer lts (item_print_z (snd ev)) = i) (rev (ev # events)) of
                 None \<Rightarrow> custom_gcode (lts ! i)
               | Some ev \<Rightarrow> Some (fst ev))"
    if "i < length lts" for i
  proof -
    from o(4) that l1 have "custom_gcode (out ! i) =
              (case find (\<lambda>ev. event_attached mode ignore num_filaments lts (snd ev) \<and>
                                chosen_layer lts (item_print_z (snd ev)) = i) (rev events) of
                 None \<Rightarrow> custom_gcode (lts1 ! i)
               | Some ev \<Rightarrow> Some (fst ev))"
      by (simp add: ch at)
    then show ?thesis
      using n1[OF that] by (auto simp: find_snoc ev c_def split: option.splits)
  qed
  from r o(2) l1 f g show ?case by auto
qed

lemma upper_bound_below:
  "j < upper_bound lts z \<Longrightarrow> print_z (lts ! j) \<le> z"
  unfolding upper_bound_def
  using nth_length_takeWhile takeWhile_nth
  by (metis (no_types, lifting) not_less nth_mem set_takeWhileD)

lemma upper_bound_above:
  assumes "sorted_wrt (\<lambda>a b. print_z a < print_z b) lts" "upper_bound lts z \<le> j" "j < length lts"
  shows "z < print_z (lts ! j)"
proof -
  from assms(2,3) have u: "upper_bound lts z < length lts" by simp
  then have "z < print_z (lts ! upper_bound lts z)"
    unfolding upper_bound_def using nth_length_takeWhile by blast
  moreover have "print_z (lts ! upper_bound lts z) \<le> print_z (lts ! j)"
  proof (cases "upper_bound lts z = j")
    case True
    then show ?thesis by simp
  next
    case False
    with assms(2) have "upper_bound lts z < j" by simp
    from sorted_wrt_nth_less[OF assms(1) this assms(3)] show ?thesis by simp
  qed
  ultimately show ?thesis by simp
qed

lemma chosen_layer_nearest:
  assumes s: "sorted_wrt (\<lambda>a b. print_z a < print_z b) lts" and ne: "lts \<noteq> []"
    and j: "j < length lts"
  shows "\<bar>z - print_z (lts ! chosen_layer lts z)\<bar> \<le> \<bar>z - print_z (lts ! j)\<bar>"
    and "\<bar>z - print_z (lts ! j)\<bar> = \<bar>z - print_z (lts ! chosen_layer lts z)\<bar> \<Longrightarrow> j \<le> chosen_layer lts z"
proof -
  define u where "u = upper_bound lts z"
  have ul: "u \<le> length lts" unfolding u_def by (rule upper_bound_le)
  have below: "print_z (lts ! i) \<le> z" if "i < u" for i
    using that unfolding u_def by (rule upper_bound_below)
  have above: "z < print_z (lts ! i)" if "u \<le> i" "i < length lts" for i
    using s that unfolding u_def by (rule upper_bound_above)
  have mono: "print_z (lts ! a) < print_z (lts ! b)" if "a < b" "b < length lts" for a b
    using sorted_wrt_nth_less[OF s that] .
  have mono_le: "print_z (lts ! a) \<le> print_z (lts ! b)" if "a \<le> b" "b < length lts" for a b
    using mono[of a b] that by (cases "a = b") auto
  consider (first) "u = 0" | (last) "u = length lts" "u \<noteq> 0"
    | (lower) "u \<noteq> 0" "u \<noteq> length lts"
        "\<bar>z - print_z (lts ! (u - 1))\<bar> < \<bar>z - print_z (lts ! u)\<bar>"
    | (upper) "u \<noteq> 0" "u \<noteq> length lts"
        "\<not> \<bar>z - print_z (lts ! (u - 1))\<bar> < \<bar>z - print_z (lts ! u)\<bar>"
    by blast
  then have "\<bar>z - print_z (lts ! chosen_layer lts z)\<bar> \<le> \<bar>z - print_z (lts ! j)\<bar> \<and>
     (\<bar>z - print_z (lts ! j)\<bar> = \<bar>z - print_z (lts ! chosen_layer lts z)\<bar> \<longrightarrow> j \<le> chosen_layer lts z)"
  proof cases
    case first
    then have c: "chosen_layer lts z = 0" by (simp add: chosen_layer_def u_def)
    from ne have l0: "0 < length lts" by simp
    have a0: "z < print_z (lts ! 0)" using above[of 0] first l0 by simp
    have aj: "z < print_z (lts ! j)" using above[of j] first j by simp
    have "j \<noteq> 0 \<Longrightarrow> print_z (lts ! 0) < print_z (lts ! j)" using mono[of 0 j] j by simp
    with a0 aj show ?thesis unfolding c by (cases "j = 0") auto
  next
    case last
    then have c: "chosen_layer lts z = length lts - 1" by (simp add: chosen_layer_def u_def)
    have lj: "j \<le> length lts - 1" using j by simp
    have bl: "print_z (lts ! (length lts - 1)) \<le> z" using below[of "length lts - 1"] last by simp
    have bj: "print_z (lts ! j) \<le> z" using below[of j] last j by simp
    have "print_z (lts ! j) \<le> print_z (lts ! (length lts - 1))"
      using mono_le[of j "length lts - 1"] j by simp
    with bl bj lj show ?thesis unfolding c by auto
  next
    case lower
    then have c: "chosen_layer lts z = u - 1" by (simp add: chosen_layer_def u_def Let_def)
    from lower ul have u: "u < length lts" "u - 1 < u" by auto
    have bl: "print_z (lts ! (u - 1)) \<le> z" using below u by blast
    have au: "z < print_z (lts ! u)" using above[of u] u by simp
    show ?thesis
    proof (cases "j < u")
      case True
      then have "print_z (lts ! j) \<le> print_z (lts ! (u - 1))"
        using mono_le[of j "u - 1"] u by simp
      moreover have "print_z (lts ! j) \<le> z" using below True by blast
      moreover have "j \<le> u - 1" using True by simp
      ultimately show ?thesis unfolding c using bl by auto
    next
      case False
      then have "print_z (lts ! u) \<le> print_z (lts ! j)" using mono_le[of u j] j by simp
      moreover have "z < print_z (lts ! j)" using above[of j] False j by simp
      ultimately show ?thesis unfolding c using bl au lower(3) by auto
    qed
  next
    case upper
    then have c: "chosen_layer lts z = u" by (simp add: chosen_layer_def u_def Let_def)
    from upper ul have u: "u < length lts" "u - 1 < u" by auto
    have bl: "print_z (lts ! (u - 1)) \<le> z" using below u by blast
    have au: "z < print_z (lts ! u)" using above[of u] u by simp
    show ?thesis
    proof (cases "j < u")
      case True
      then have "print_z (lts ! j) \<le> print_z (lts ! (u - 1))"
        using mono_le[of j "u - 1"] u by simp
      moreover have "print_z (lts ! j) \<le> z" using below True by blast
      ultimately show ?thesis unfolding c using bl au upper(3) True by auto
    next
      case False
      then have "j \<noteq> u \<Longrightarrow> print_z (lts ! u) < print_z (lts ! j)" using mono[of u j] j by simp
      moreover have "z < print_z (lts ! j)" using above[of j] False j by simp
      ultimately show ?thesis unfolding c using au by (cases "j = u") auto
    qed
  qed
  then show "\<bar>z - print_z (lts ! chosen_layer lts z)\<bar> \<le> \<bar>z - print_z (lts ! j)\<bar>"
    and "\<bar>z - print_z (lts ! j)\<bar> = \<bar>z - print_z (lts ! chosen_layer lts z)\<bar> \<Longrightarrow> j \<le> chosen_layer lts z"
    by blast+
qed


lemma in_set_zip_upt:
  "ev \<in> set (zip [0..<length gcodes] gcodes) \<longleftrightarrow> (fst ev < length gcodes \<and> snd ev = gcodes ! fst ev)"
proof
  assume "ev \<in> set (zip [0..<length gcodes] gcodes)"
  then obtain i where "i < length gcodes" "ev = ([0..<length gcodes] ! i, gcodes ! i)"
    by (auto simp: set_zip)
  then show "fst ev < length gcodes \<and> snd ev = gcodes ! fst ev" by simp
next
  assume a: "fst ev < length gcodes \<and> snd ev = gcodes ! fst ev"
  then have "ev = ([0..<length gcodes] ! fst ev, gcodes ! fst ev)"
    by (cases ev) simp
  with a show "ev \<in> set (zip [0..<length gcodes] gcodes)"
    unfolding set_zip by (intro CollectI exI[of _ "fst ev"]) simp
qed

text \<open>
  Claim C6, as amended. For layers sorted by height, with extruders below the number
  of filaments and colour changes of an extruder from 1 on, \<^verbatim>\<open>assign_custom_gcodes\<close>
  returns and changes nothing but the events of the layers. The layer chosen for an
  event is the one nearest the height of the event, the upper one at a tie. A layer
  that no attached event chooses keeps its event; a layer that attached events choose
  holds one of them; an attached event that is alone in choosing its layer is held by
  that layer. An event is attached when it is a pause or a custom G-code, or a colour
  change that is not ignored (print and events agree on being multi-extruder) and,
  unless the printer has a single filament, whose extruder is within the filaments
  and prints on the chosen layer or above.
\<close>

theorem assign_custom_gcodes_attaches:
  assumes "m_layer_tools \<noteq> []"
    and "sorted_wrt (\<lambda>a b. print_z a < print_z b) m_layer_tools"
    and "\<forall>lt\<in>set m_layer_tools. \<forall>i\<in>set (extruders lt). unat i < num_filaments"
    and "\<forall>item\<in>set gcodes. item_type item = ColorChange \<longrightarrow> 1 \<le> item_extruder item"
  shows
  "(let mode = custom_gcode_mode num_filaments object_extruders;
        ignore = ((mode = MultiExtruder) \<noteq> (model_mode = MultiExtruder));
        attached = (\<lambda>k. event_attached mode ignore num_filaments m_layer_tools (gcodes ! k));
        height = (\<lambda>k. item_print_z (gcodes ! k));
        chosen = (\<lambda>k. chosen_layer m_layer_tools (height k))
    in \<exists>out.
         assign_custom_gcodes num_filaments object_extruders model_mode gcodes m_layer_tools
           = Some out \<and>
         length out = length m_layer_tools \<and>
         (\<forall>i<length m_layer_tools. \<exists>g. out ! i = (m_layer_tools ! i)\<lparr>custom_gcode := g\<rparr>) \<and>
         (\<forall>i<length m_layer_tools.
            if \<exists>k<length gcodes. attached k \<and> chosen k = i
            then \<exists>k<length gcodes. attached k \<and> chosen k = i \<and> custom_gcode (out ! i) = Some k
            else custom_gcode (out ! i) = custom_gcode (m_layer_tools ! i)) \<and>
         (\<forall>k<length gcodes.
            attached k \<and> (\<forall>k'<length gcodes. k' \<noteq> k \<and> attached k' \<longrightarrow> chosen k' \<noteq> chosen k) \<longrightarrow>
              custom_gcode (out ! chosen k) = Some k) \<and>
         (\<forall>k<length gcodes.
            chosen k < length m_layer_tools \<and>
            (\<forall>j<length m_layer_tools.
               \<bar>height k - print_z (m_layer_tools ! chosen k)\<bar>
                 \<le> \<bar>height k - print_z (m_layer_tools ! j)\<bar> \<and>
               (\<bar>height k - print_z (m_layer_tools ! j)\<bar>
                  = \<bar>height k - print_z (m_layer_tools ! chosen k)\<bar> \<longrightarrow> j \<le> chosen k))))"
proof -
  define mode where "mode = custom_gcode_mode num_filaments object_extruders"
  define ignore where "ignore = ((mode = MultiExtruder) \<noteq> (model_mode = MultiExtruder))"
  define attached where
    "attached = (\<lambda>k. event_attached mode ignore num_filaments m_layer_tools (gcodes ! k))"
  define height where "height = (\<lambda>k. item_print_z (gcodes ! k))"
  define chosen where "chosen = (\<lambda>k. chosen_layer m_layer_tools (height k))"
  define P where "P = (\<lambda>i (ev :: nat \<times> Item).
      event_attached mode ignore num_filaments m_layer_tools (snd ev) \<and>
      chosen_layer m_layer_tools (item_print_z (snd ev)) = i)"
  let ?events = "zip [0..<length gcodes] gcodes"
  have near: "chosen k < length m_layer_tools \<and>
            (\<forall>j<length m_layer_tools.
               \<bar>height k - print_z (m_layer_tools ! chosen k)\<bar>
                 \<le> \<bar>height k - print_z (m_layer_tools ! j)\<bar> \<and>
               (\<bar>height k - print_z (m_layer_tools ! j)\<bar>
                  = \<bar>height k - print_z (m_layer_tools ! chosen k)\<bar> \<longrightarrow> j \<le> chosen k))" for k
  proof (intro conjI allI impI)
    show "chosen k < length m_layer_tools"
      unfolding chosen_def using assms(1) by (rule chosen_layer_less)
  next
    fix j assume "j < length m_layer_tools"
    then show "\<bar>height k - print_z (m_layer_tools ! chosen k)\<bar>
                 \<le> \<bar>height k - print_z (m_layer_tools ! j)\<bar>"
      unfolding chosen_def by (rule chosen_layer_nearest(1)[OF assms(2,1)])
  next
    fix j assume "j < length m_layer_tools"
      and "\<bar>height k - print_z (m_layer_tools ! j)\<bar>
                  = \<bar>height k - print_z (m_layer_tools ! chosen k)\<bar>"
    then show "j \<le> chosen k"
      unfolding chosen_def by (rule chosen_layer_nearest(2)[OF assms(2,1)])
  qed
  from extruder_print_above_by_layer_Some[OF assms(3)] obtain by_layer where
    b: "extruder_print_above_by_layer num_filaments m_layer_tools = Some by_layer"
      "length by_layer = length m_layer_tools"
      "\<forall>idx<length m_layer_tools. length (by_layer ! idx) = num_filaments \<and>
          (\<forall>e<num_filaments. by_layer ! idx ! e = prints_at_or_above m_layer_tools e idx)"
    by blast
  have cc: "\<forall>ev\<in>set (rev ?events). item_type (snd ev) = ColorChange \<longrightarrow> 1 \<le> item_extruder (snd ev)"
    using assms(4) by (auto simp: in_set_zip_upt)
  from assign_events_result[OF assms(1) b(2,3) cc, of mode ignore
      "mode = SingleExtruder \<and> model_mode = MultiAsSingle"]
  obtain out where
    o: "assign_events mode ignore (mode = SingleExtruder \<and> model_mode = MultiAsSingle)
          num_filaments by_layer (rev ?events) m_layer_tools = Some out"
      "length out = length m_layer_tools"
      "\<forall>i<length m_layer_tools. \<exists>g. out ! i = (m_layer_tools ! i)\<lparr>custom_gcode := g\<rparr>"
      "\<forall>i<length m_layer_tools. custom_gcode (out ! i) =
              (case find (P i) ?events of
                 None \<Rightarrow> custom_gcode (m_layer_tools ! i)
               | Some ev \<Rightarrow> Some (fst ev))"
    unfolding P_def by auto
  have Pk: "P i (k, gcodes ! k) \<longleftrightarrow> attached k \<and> chosen k = i" for i k
    by (simp add: P_def attached_def chosen_def height_def)
  have res: "assign_custom_gcodes num_filaments object_extruders model_mode gcodes m_layer_tools
               = Some out"
  proof (cases "gcodes = []")
    case True
    have "out ! i = m_layer_tools ! i" if "i < length m_layer_tools" for i
    proof -
      from o(3) that obtain g where g: "out ! i = (m_layer_tools ! i)\<lparr>custom_gcode := g\<rparr>"
        by blast
      from o(4) that True have "custom_gcode (out ! i) = custom_gcode (m_layer_tools ! i)"
        by simp
      with g show ?thesis by (cases "m_layer_tools ! i") simp
    qed
    with o(2) have "out = m_layer_tools" by (intro nth_equalityI) auto
    with True show ?thesis by (simp add: assign_custom_gcodes_def)
  next
    case False
    then show ?thesis
      unfolding assign_custom_gcodes_def Let_def mode_def[symmetric] ignore_def[symmetric]
      using b(1) o(1) by simp
  qed
  have layer: "if \<exists>k<length gcodes. attached k \<and> chosen k = i
            then \<exists>k<length gcodes. attached k \<and> chosen k = i \<and> custom_gcode (out ! i) = Some k
            else custom_gcode (out ! i) = custom_gcode (m_layer_tools ! i)"
    if i: "i < length m_layer_tools" for i
  proof (cases "find (P i) ?events")
    case None
    then have "\<forall>ev\<in>set ?events. \<not> P i ev" unfolding find_None_iff by blast
    then have "\<not> P i (k, gcodes ! k)" if "k < length gcodes" for k
      using that by (auto simp: in_set_zip_upt)
    then have no: "\<not> (\<exists>k<length gcodes. attached k \<and> chosen k = i)" by (simp add: Pk)
    from o(4) i None have "custom_gcode (out ! i) = custom_gcode (m_layer_tools ! i)" by simp
    with no show ?thesis by auto
  next
    case (Some ev)
    obtain k0 item where ev: "ev = (k0, item)" by (cases ev)
    from Some have in_ev: "ev \<in> set ?events" and Pev: "P i ev"
      by (auto simp: find_Some_iff in_set_conv_nth)
    from in_ev have k: "k0 < length gcodes" "item = gcodes ! k0"
      by (simp_all add: in_set_zip_upt ev)
    from Pev have a: "attached k0 \<and> chosen k0 = i" by (simp add: ev k(2) Pk)
    from o(4) i Some have "custom_gcode (out ! i) = Some k0" by (simp add: ev)
    with a k(1) show ?thesis by auto
  qed
  have alone: "custom_gcode (out ! chosen k) = Some k"
    if k: "k < length gcodes" "attached k"
      "\<forall>k'<length gcodes. k' \<noteq> k \<and> attached k' \<longrightarrow> chosen k' \<noteq> chosen k" for k
  proof -
    have c: "chosen k < length m_layer_tools" using near by blast
    from layer[OF c] k(1,2) obtain k' where
      k': "k' < length gcodes" "attached k'" "chosen k' = chosen k"
        "custom_gcode (out ! chosen k) = Some k'"
      by (auto split: if_splits)
    with k(3) have "k' = k" by blast
    with k'(4) show ?thesis by simp
  qed
  have L: "\<forall>i<length m_layer_tools.
            if \<exists>k<length gcodes. attached k \<and> chosen k = i
            then \<exists>k<length gcodes. attached k \<and> chosen k = i \<and> custom_gcode (out ! i) = Some k
            else custom_gcode (out ! i) = custom_gcode (m_layer_tools ! i)"
    by (intro allI impI) (rule layer)
  have A: "\<forall>k<length gcodes.
            attached k \<and> (\<forall>k'<length gcodes. k' \<noteq> k \<and> attached k' \<longrightarrow> chosen k' \<noteq> chosen k) \<longrightarrow>
              custom_gcode (out ! chosen k) = Some k"
    by (intro allI impI, elim conjE, rule alone)
  have N: "\<forall>k<length gcodes.
            chosen k < length m_layer_tools \<and>
            (\<forall>j<length m_layer_tools.
               \<bar>height k - print_z (m_layer_tools ! chosen k)\<bar>
                 \<le> \<bar>height k - print_z (m_layer_tools ! j)\<bar> \<and>
               (\<bar>height k - print_z (m_layer_tools ! j)\<bar>
                  = \<bar>height k - print_z (m_layer_tools ! chosen k)\<bar> \<longrightarrow> j \<le> chosen k))"
    by (intro allI impI) (rule near)
  from res o(2,3) L A N show ?thesis
    unfolding Let_def mode_def ignore_def attached_def height_def chosen_def
    by (intro exI[of _ out] conjI) assumption+
qed


theorem assign_custom_gcodes_attaches_witness:
  "map_option (map custom_gcode)
     (assign_custom_gcodes 2 2 MultiExtruder
        [\<lparr> item_print_z = 43 / 8, item_type = PausePrint, item_extruder = 1 \<rparr>,
         \<lparr> item_print_z = 41 / 8, item_type = ColorChange, item_extruder = 1 \<rparr>]
        [(new_LayerTools 5)\<lparr>extruders := [0, 1]\<rparr>, (new_LayerTools (11 / 2))\<lparr>extruders := [1]\<rparr>])
     = Some [Some 1, Some 0]"
proof -
  let ?lts = "[(new_LayerTools 5)\<lparr>extruders := [0, 1]\<rparr>,
               (new_LayerTools (11 / 2))\<lparr>extruders := [1]\<rparr>]"
  let ?p = "\<lparr> item_print_z = 43 / 8, item_type = PausePrint, item_extruder = 1 \<rparr>"
  let ?c = "\<lparr> item_print_z = 41 / 8, item_type = ColorChange, item_extruder = 1 \<rparr>"
  have m: "custom_gcode_mode 2 2 = MultiExtruder" by (simp add: custom_gcode_mode_def)
  have cp: "chosen_layer ?lts (43 / 8) = 1"
    by (simp add: chosen_layer_def upper_bound_def new_LayerTools_def Let_def)
  have cc: "chosen_layer ?lts (41 / 8) = 0"
    by (simp add: chosen_layer_def upper_bound_def new_LayerTools_def Let_def)
  have ap: "event_attached MultiExtruder False 2 ?lts ?p"
    by (simp add: event_attached_def)
  have ac: "event_attached MultiExtruder False 2 ?lts ?c"
    unfolding event_attached_def by (simp add: cc) (simp add: prints_at_or_above_def new_LayerTools_def)
  have pre: "?lts \<noteq> []" "sorted_wrt (\<lambda>a b. print_z a < print_z b) ?lts"
    "\<forall>lt\<in>set ?lts. \<forall>i\<in>set (extruders lt). unat i < 2"
    "\<forall>item\<in>set [?p, ?c]. item_type item = ColorChange \<longrightarrow> 1 \<le> item_extruder item"
    by (simp_all add: new_LayerTools_def)
  from assign_custom_gcodes_attaches[OF pre, of 2 MultiExtruder, unfolded Let_def m]
  obtain out where
    o: "assign_custom_gcodes 2 2 MultiExtruder [?p, ?c] ?lts = Some out"
      "length out = length ?lts"
    and alone: "\<forall>k<length [?p, ?c].
            event_attached MultiExtruder False 2 ?lts ([?p, ?c] ! k) \<and>
            (\<forall>k'<length [?p, ?c]. k' \<noteq> k \<and> event_attached MultiExtruder False 2 ?lts ([?p, ?c] ! k') \<longrightarrow>
               chosen_layer ?lts (item_print_z ([?p, ?c] ! k'))
                 \<noteq> chosen_layer ?lts (item_print_z ([?p, ?c] ! k))) \<longrightarrow>
              custom_gcode (out ! chosen_layer ?lts (item_print_z ([?p, ?c] ! k))) = Some k"
    by auto
  have k0: "custom_gcode (out ! 1) = Some 0"
    using alone[rule_format, of 0] ap ac cp cc by (auto simp: less_Suc_eq)
  have k1: "custom_gcode (out ! 0) = Some 1"
    using alone[rule_format, of 1] ap ac cp cc by (auto simp: less_Suc_eq)
  from o(2) obtain a b where ab: "out = [a, b]"
    by (auto simp: length_Suc_conv)
  with k0 k1 have "map custom_gcode out = [Some 1, Some 0]" by simp
  with o(1) show ?thesis by simp
qed

text \<open>
  Claim C6 as stated fails. On a printer with a single filament a colour change of
  extruder 2, which prints nowhere, is attached to the nearest layer. In a
  multi-extruder print a colour change authored in single-extruder mode is attached
  to no layer although its extruder prints on every layer. Of two pauses that are
  nearest to the same layer only one is attached.
\<close>

theorem assign_custom_gcodes_attaches_counterexample:
  "map_option (map custom_gcode)
     (assign_custom_gcodes 1 1 MultiAsSingle
        [\<lparr> item_print_z = 41 / 8, item_type = ColorChange, item_extruder = 2 \<rparr>]
        [(new_LayerTools 5)\<lparr>extruders := [0]\<rparr>, (new_LayerTools (11 / 2))\<lparr>extruders := [0]\<rparr>])
     = Some [Some 0, None] \<and>
   \<not> prints_at_or_above
        [(new_LayerTools 5)\<lparr>extruders := [0]\<rparr>, (new_LayerTools (11 / 2))\<lparr>extruders := [0]\<rparr>]
        (nat (2 - 1)) 0 \<and>
   map_option (map custom_gcode)
     (assign_custom_gcodes 2 2 SingleExtruder
        [\<lparr> item_print_z = 41 / 8, item_type = ColorChange, item_extruder = 1 \<rparr>]
        [(new_LayerTools 5)\<lparr>extruders := [0, 1]\<rparr>,
         (new_LayerTools (11 / 2))\<lparr>extruders := [0, 1]\<rparr>])
     = Some [None, None] \<and>
   map_option (map custom_gcode)
     (assign_custom_gcodes 2 2 MultiExtruder
        [\<lparr> item_print_z = 43 / 8, item_type = PausePrint, item_extruder = 1 \<rparr>,
         \<lparr> item_print_z = 45 / 8, item_type = PausePrint, item_extruder = 1 \<rparr>]
        [(new_LayerTools 5)\<lparr>extruders := [0, 1]\<rparr>, (new_LayerTools (11 / 2))\<lparr>extruders := [1]\<rparr>])
     = Some [None, Some 0]"
  by (simp add: assign_custom_gcodes_def custom_gcode_mode_def assign_event_def
      apply_custom_gcode_to_layer_def chosen_layer_def upper_bound_def new_LayerTools_def
      prints_at_or_above_def Let_def upt_rec)

section \<open>The volume left after marking extrusions for wiping\<close>


lemma sum_list_same:
  "\<forall>x\<in>set xs. g x = f x \<Longrightarrow> sum_list (map g xs) = sum_list (map f xs)"
  by (induction xs) simp_all








lemma set_extruder_override_support [simp]:
  "support_map (set_extruder_override e ob c x n w) = support_map w"
  "support_intf_map (set_extruder_override e ob c x n w) = support_intf_map w"
  by (simp_all add: set_extruder_override_def Let_def)

lemma set_support_override_maps [simp]:
  "entity_map (set_support_extruder_override ob c x n w) = entity_map w"
  "support_intf_map (set_support_extruder_override ob c x n w) = support_intf_map w"
  "support_map (set_support_extruder_override ob c x n w) ob' = None
     \<longleftrightarrow> ob' \<noteq> ob \<and> support_map w ob' = None"
  by (auto simp: set_support_extruder_override_def split: option.splits)

lemma set_interface_override_maps [simp]:
  "entity_map (set_support_interface_extruder_override ob c x n w) = entity_map w"
  "support_map (set_support_interface_extruder_override ob c x n w) = support_map w"
  "support_intf_map (set_support_interface_extruder_override ob c x n w) ob' = None
     \<longleftrightarrow> ob' \<noteq> ob \<and> support_intf_map w ob' = None"
  by (auto simp: set_support_interface_extruder_override_def split: option.splits)




















lemma sum_list_zero:
  fixes f :: "'a \<Rightarrow> rat"
  shows "\<forall>x\<in>set xs. f x = 0 \<Longrightarrow> sum_list (map f xs) = 0"
  by (induction xs) simp_all

lemma absorbed_volume_same [simp]: "absorbed_volume d print lt w w = 0"
proof -
  have "absorbed_by_candidate d print lt w w cand = 0" for cand by (cases cand) auto
  then have "sum_list (map (absorbed_by_candidate d print lt w w) (candidates print)) = 0"
    by (intro sum_list_zero) simp
  moreover have "sum_list (map (absorbed_by_support w w) (objects print)) = 0"
    by (intro sum_list_zero) (auto simp: absorbed_by_support_def)
  moreover have "sum_list (map (absorbed_by_interface w w) (objects print)) = 0"
    by (intro sum_list_zero) (auto simp: absorbed_by_interface_def)
  ultimately show ?thesis by (simp add: absorbed_volume_def)
qed

lemma keeps_same [simp]: "keeps d print lt w w"
  by (simp add: keeps_def marks_eligible_def)



end
